theory Spec2Isabelle
  imports Complex_Main "HOL-Library.Word"
begin

unbundle bit_operations_syntax

section \<open>chunky-zip: appending one archive entry chunk by chunk\<close>

text \<open>
  A shallow embedding of \<^verbatim>\<open>chunky_zip/storage_zip.py\<close>, \<^verbatim>\<open>chunky_zip/compressed_zip.py\<close> and
  \<^verbatim>\<open>chunky_zip/__init__.py\<close>. The repository's functions keep their names (a leading
  underscore is dropped; \<^verbatim>\<open>_write\<close> is \<open>zip_write\<close>). What the code takes from Python's standard
  library is modelled beside it and marked as such: byte streams, \<^verbatim>\<open>zlib.crc32\<close>,
  \<^verbatim>\<open>ZipInfo.FileHeader\<close>, opening and closing a \<^verbatim>\<open>ZipFile\<close>, and the streaming compressor
  objects, whose algorithms are parameters of the model.
\<close>

subsection \<open>Bytes and little-endian fields\<close>

type_synonym byte = "8 word"
type_synonym bytes = "byte list"

datatype error =
    ArchiveClosed   \<comment> \<open>ValueError: Attempt to write to ZIP archive that was already closed\<close>
  | StructError     \<comment> \<open>struct.error: a header field does not fit its width\<close>
  | TypeError       \<comment> \<open>a flush mode passed to an adapter whose flush takes none\<close>
  | FileNotFound
  | KeyError
  | BadZipFile

text \<open>\<^verbatim>\<open>struct.pack\<close> with a little-endian format: \<open>le_bytes k v\<close> is the \<open>k\<close>-byte field.\<close>

fun le_bytes :: "nat \<Rightarrow> nat \<Rightarrow> bytes" where
  "le_bytes 0 v = []"
| "le_bytes (Suc k) v = of_nat (v mod 256) # le_bytes k (v div 256)"

fun le_val :: "bytes \<Rightarrow> nat" where
  "le_val [] = 0"
| "le_val (b # bs) = unat b + 256 * le_val bs"

text \<open>A list of (width, value) fields; \<^verbatim>\<open>struct.pack\<close> raises when a value does not fit.\<close>

definition struct_pack :: "(nat \<times> nat) list \<Rightarrow> error + bytes" where
  "struct_pack fs =
     (if list_all (\<lambda>(k, v). v < 256 ^ k) fs
      then Inr (concat (map (\<lambda>(k, v). le_bytes k v) fs))
      else Inl StructError)"

subsection \<open>CRC-32 (\<^verbatim>\<open>zlib.crc32\<close>)\<close>

text \<open>
  The reflected CRC-32 of zlib, bit by bit: \<open>crc32 data value\<close> continues the checksum
  \<open>value\<close> over \<open>data\<close>, as \<^verbatim>\<open>crc32(data, value)\<close> does; \<^verbatim>\<open>crc32(data)\<close> is \<open>crc32 data 0\<close>.
\<close>

definition crc_bit :: "32 word \<Rightarrow> 32 word" where
  "crc_bit c = (if c AND 1 = 1 then drop_bit 1 c XOR 0xEDB88320 else drop_bit 1 c)"

definition crc_byte :: "32 word \<Rightarrow> byte \<Rightarrow> 32 word" where
  "crc_byte c b = (crc_bit ^^ 8) (c XOR ucast b)"

definition crc32 :: "bytes \<Rightarrow> 32 word \<Rightarrow> 32 word" where
  "crc32 data v = NOT (foldl crc_byte (NOT v) data)"

subsection \<open>The entry descriptor (\<^verbatim>\<open>zipfile.ZipInfo\<close>)\<close>

datatype compression = ZIP_STORED | ZIP_DEFLATED | ZIP_BZIP2 | ZIP_LZMA

fun method_id :: "compression \<Rightarrow> nat" where
  "method_id ZIP_STORED = 0"
| "method_id ZIP_DEFLATED = 8"
| "method_id ZIP_BZIP2 = 12"
| "method_id ZIP_LZMA = 14"

text \<open>
  The fields of a \<^verbatim>\<open>ZipInfo\<close> that the writer or the local header use. \<open>date_time\<close> is
  kept in the form the header stores it (DOS time and DOS date, 16 bits each). A \<open>filename\<close>
  is the entry name as bytes (UTF-8); names are taken without a NUL byte and with \<^verbatim>\<open>/\<close>
  as separator, for which the constructor of \<^verbatim>\<open>ZipInfo\<close> keeps the name it is given.
\<close>

type_synonym dos_stamp = "16 word \<times> 16 word"

record zipinfo =
  filename :: string
  date_time :: dos_stamp
  compress_type :: compression
  CRC :: "32 word"
  file_size :: nat
  compress_size :: nat
  header_offset :: nat
  extra :: bytes
  flag_bits :: nat
  extract_version :: nat
  create_version :: nat

text \<open>\<^verbatim>\<open>ZipInfo(filename, date_time)\<close>: the defaults of a new descriptor.\<close>

definition ZipInfo :: "string \<Rightarrow> dos_stamp \<Rightarrow> zipinfo" where
  "ZipInfo name stamp =
     \<lparr>filename = name, date_time = stamp, compress_type = ZIP_STORED, CRC = 0,
      file_size = 0, compress_size = 0, header_offset = 0, extra = [], flag_bits = 0,
      extract_version = 20, create_version = 20\<rparr>"

definition ZIP64_LIMIT :: nat where
  "ZIP64_LIMIT = push_bit 31 1 - 1"

definition encodeFilenameFlags :: "zipinfo \<Rightarrow> bytes \<times> nat" where
  "encodeFilenameFlags z =
     (if list_all (\<lambda>c. of_char c < (128::nat)) (filename z)
      then (map of_char (filename z), flag_bits z)
      else (map of_char (filename z), or (flag_bits z) 0x800))"

text \<open>
  \<^verbatim>\<open>ZipInfo.FileHeader(zip64)\<close>, in the order of the library's code. With the data
  descriptor flag (bit 3 of \<open>flag_bits\<close>) the header states CRC and sizes as zero.
\<close>

definition header_sizes :: "zipinfo \<Rightarrow> nat \<times> nat \<times> nat" where
  "header_sizes z =
     (if and (flag_bits z) 0x08 \<noteq> 0 then (0, 0, 0)
      else (unat (CRC z), compress_size z, file_size z))"

text \<open>\<^verbatim>\<open>struct.pack('<HHQQ', 1, 16, file_size, compress_size)\<close>: the zip64 record.\<close>

definition zip64_extra :: "zipinfo \<Rightarrow> error + bytes" where
  "zip64_extra z =
     (case header_sizes z of
        (crc, csize, fsize) \<Rightarrow> struct_pack [(2, 1), (2, 16), (8, fsize), (8, csize)])"

definition min_version :: "zipinfo \<Rightarrow> bool \<Rightarrow> nat" where
  "min_version z zip64 =
     (let v = (if zip64 then 45 else 0)
      in case compress_type z of
           ZIP_BZIP2 \<Rightarrow> max 46 v
         | ZIP_LZMA \<Rightarrow> max 63 v
         | _ \<Rightarrow> v)"

definition raise_versions :: "zipinfo \<Rightarrow> bool \<Rightarrow> zipinfo" where
  "raise_versions z zip64 =
     z\<lparr>extract_version := max (min_version z zip64) (extract_version z),
       create_version := max (min_version z zip64) (create_version z)\<rparr>"

text \<open>
  The fixed part, format \<^verbatim>\<open><4s2B4HL2L2H\<close> (30 bytes): signature, version needed, reserved,
  flags, method, time, date, CRC, compressed size, size, length of the name, length of
  the extra field.
\<close>

definition fixed_header :: "zipinfo \<Rightarrow> bool \<Rightarrow> nat \<Rightarrow> nat \<Rightarrow> nat \<Rightarrow> error + bytes" where
  "fixed_header z zip64 flags name_len extra_len =
     (case header_sizes z of
        (crc, csize, fsize) \<Rightarrow>
          struct_pack
            [(1, 0x50), (1, 0x4B), (1, 3), (1, 4),
             (1, extract_version z), (1, 0), (2, flags),
             (2, method_id (compress_type z)),
             (2, unat (fst (date_time z))), (2, unat (snd (date_time z))),
             (4, crc),
             (4, if zip64 then 0xffffffff else csize),
             (4, if zip64 then 0xffffffff else fsize),
             (2, name_len), (2, extra_len)])"

text \<open>
  The bytes of the local header, and the descriptor with the version fields the call
  raises. The extra field grows by the 20 bytes of the zip64 record when \<open>zip64\<close> holds.
\<close>

definition FileHeader :: "zipinfo \<Rightarrow> bool \<Rightarrow> error + (bytes \<times> zipinfo)" where
  "FileHeader z zip64 =
     (case (if zip64 then zip64_extra z else Inr []) of
        Inl e \<Rightarrow> Inl e
      | Inr z64 \<Rightarrow>
          (let z' = raise_versions z zip64;
               (name, flags) = encodeFilenameFlags z
           in case fixed_header z' zip64 flags (length name) (length (extra z @ z64)) of
                Inl e \<Rightarrow> Inl e
              | Inr header \<Rightarrow> Inr (header @ name @ extra z @ z64, z')))"

subsection \<open>Byte streams (\<^verbatim>\<open>IO[bytes]\<close>)\<close>

record fobj =
  data :: bytes
  pos :: nat

definition fp_seek :: "fobj \<Rightarrow> nat \<Rightarrow> fobj" where
  "fp_seek f p = f\<lparr>pos := p\<rparr>"

definition fp_tell :: "fobj \<Rightarrow> nat" where
  "fp_tell f = pos f"

text \<open>Writing overwrites from the position on; a gap past the end is filled with zeros.\<close>

definition fp_write :: "fobj \<Rightarrow> bytes \<Rightarrow> fobj" where
  "fp_write f bs =
     (if bs = [] then f
      else \<lparr>data = take (pos f) (data f) @ replicate (pos f - length (data f)) 0 @ bs
                     @ drop (pos f + length bs) (data f),
            pos = pos f + length bs\<rparr>)"

subsection \<open>Archives on disk and open \<^verbatim>\<open>ZipFile\<close> sessions\<close>

text \<open>
  An archive file: all its bytes, the entries its central directory lists (in order), and
  the offset where the central directory starts. Reading a directory back is taken to give
  the descriptors that were written.
\<close>

record zip_archive =
  raw :: bytes
  directory :: "zipinfo list"
  dir_offset :: nat

text \<open>
  During a session the listing of a \<^verbatim>\<open>ZipFile\<close> holds object references. The writer puts
  its own descriptor object there and mutates it afterwards, so a reference is either the
  writer's descriptor (\<open>Own\<close>) or a descriptor loaded from the directory.
\<close>

datatype zipinfo_ref = Own | Loaded zipinfo

record ZipFile =
  fp :: "fobj option"
  filelist :: "zipinfo_ref list"
  NameToInfo :: "string \<rightharpoonup> zipinfo_ref"
  start_dir :: nat
  didModify :: bool

text \<open>The name table of a directory: a later entry of the same name wins.\<close>

definition name_to_info :: "zipinfo list \<Rightarrow> string \<rightharpoonup> zipinfo" where
  "name_to_info zs = map_of (rev (map (\<lambda>z. (filename z, z)) zs))"

text \<open>\<^verbatim>\<open>ZipFile(path, "r").getinfo(name)\<close>\<close>

definition ZipFile_getinfo :: "zip_archive option \<Rightarrow> string \<Rightarrow> error + zipinfo" where
  "ZipFile_getinfo file name =
     (case file of
        None \<Rightarrow> Inl FileNotFound
      | Some a \<Rightarrow> (case name_to_info (directory a) name of
                     None \<Rightarrow> Inl KeyError
                   | Some z \<Rightarrow> Inr z))"

text \<open>
  \<^verbatim>\<open>ZipFile(path, "a")\<close>: a missing file is created empty and counts as modified; an
  existing archive is loaded and the stream is left at the start of its directory.
\<close>

definition ZipFile_append :: "zip_archive option \<Rightarrow> ZipFile" where
  "ZipFile_append file =
     (case file of
        None \<Rightarrow> \<lparr>fp = Some \<lparr>data = [], pos = 0\<rparr>, filelist = [], NameToInfo = Map.empty,
                  start_dir = 0, didModify = True\<rparr>
      | Some a \<Rightarrow> \<lparr>fp = Some \<lparr>data = raw a, pos = dir_offset a\<rparr>,
                    filelist = map Loaded (directory a),
                    NameToInfo = map_option Loaded \<circ> name_to_info (directory a),
                    start_dir = dir_offset a, didModify = False\<rparr>)"

subsection \<open>The environment and the process state\<close>

text \<open>
  What the model takes from outside the repository: the clock (\<open>now k\<close> is the \<open>k\<close>-th
  reading of \<^verbatim>\<open>datetime.now()\<close>), the bytes \<^verbatim>\<open>ZipFile.close\<close> writes for a listing whose
  directory starts at a given offset, and the streaming compressors of zlib, bz2 and lzma
  with the decompression the archive reader applies. A compressor object has a state of
  type \<open>'s\<close>; \<open>flush s None\<close> is \<^verbatim>\<open>flush()\<close> and \<open>flush s (Some m)\<close> is \<^verbatim>\<open>flush(m)\<close>. The
  operations are total here: a library error inside a compressor is not modelled.
\<close>

record 's env =
  now :: "nat \<Rightarrow> dos_stamp"
  end_record :: "zipinfo list \<Rightarrow> nat \<Rightarrow> bytes"
  new_compressor :: "compression \<Rightarrow> 's"
  compress :: "'s \<Rightarrow> bytes \<Rightarrow> bytes \<times> 's"
  flush :: "'s \<Rightarrow> nat option \<Rightarrow> bytes \<times> 's"
  decompress :: "compression \<Rightarrow> bytes \<Rightarrow> bytes option"

datatype 's adapter = EmptyCompress | Compressor 's

text \<open>
  The process: the file system (archives by path), the module-level dictionary
  \<^verbatim>\<open>zip_compressor_storage\<close> from a key to an adapter object, the adapter objects by
  address, the next free address, and the number of clock readings taken.
\<close>

record 's world =
  files :: "string \<rightharpoonup> zip_archive"
  zip_compressor_storage :: "string \<rightharpoonup> nat"
  objects :: "nat \<Rightarrow> 's adapter"
  next_obj :: nat
  ticks :: nat

definition clock_read :: "'s env \<Rightarrow> 's world \<Rightarrow> dos_stamp \<times> 's world" where
  "clock_read e s = (now e (ticks s), s\<lparr>ticks := Suc (ticks s)\<rparr>)"

definition Z_FULL_FLUSH :: nat where
  "Z_FULL_FLUSH = 3"

subsection \<open>\<^verbatim>\<open>storage_zip.py\<close>: \<^verbatim>\<open>ChunkedStoredZipWriter\<close>\<close>

record writer =
  output_zip :: string
  filename_in_zip :: string
  compression :: compression
  zipinfo :: zipinfo

definition deref :: "writer \<Rightarrow> zipinfo_ref \<Rightarrow> zipinfo" where
  "deref w r = (case r of Own \<Rightarrow> zipinfo w | Loaded z \<Rightarrow> z)"

text \<open>
  \<^verbatim>\<open>ZipFile.close()\<close> of an append session: when the archive was modified the end record
  is written at \<open>start_dir\<close> and the file is truncated behind it. \<open>own\<close> is the object the
  reference \<open>Own\<close> stands for, \<open>old\<close> the file as it was when the session opened.
\<close>

definition ZipFile_close ::
  "'s env \<Rightarrow> zipinfo \<Rightarrow> zip_archive option \<Rightarrow> ZipFile \<Rightarrow> zip_archive option" where
  "ZipFile_close e own old zf =
     (case fp zf of
        None \<Rightarrow> old
      | Some f \<Rightarrow>
          if didModify zf then
            (let listing = map (\<lambda>r. case r of Own \<Rightarrow> own | Loaded z \<Rightarrow> z) (filelist zf);
                 f' = fp_write (fp_seek f (start_dir zf)) (end_record e listing (start_dir zf))
             in Some \<lparr>raw = take (pos f') (data f'), directory = listing,
                      dir_offset = start_dir zf\<rparr>)
          else map_option (\<lambda>a. a\<lparr>raw := data f\<rparr>) old)"

definition extract_zipinfo ::
  "'s env \<Rightarrow> string \<Rightarrow> string \<Rightarrow> compression \<Rightarrow> 's world \<Rightarrow> zipinfo \<times> 's world" where
  "extract_zipinfo e oz name method s =
     (case ZipFile_getinfo (files s oz) name of
        Inr z \<Rightarrow> (z, s)
      | Inl err \<Rightarrow>
          (let (stamp, s') = clock_read e s
           in ((ZipInfo name stamp)\<lparr>compress_type := method, CRC := crc32 [] 0, file_size := 0,
                                    compress_size := 0, header_offset := 0\<rparr>, s')))"

text \<open>\<^verbatim>\<open>ChunkedStoredZipWriter(output_zip, filename_in_zip)\<close>\<close>

definition ChunkedStoredZipWriter ::
  "'s env \<Rightarrow> string \<Rightarrow> string \<Rightarrow> 's world \<Rightarrow> writer \<times> 's world" where
  "ChunkedStoredZipWriter e oz name s =
     (let (z, s') = extract_zipinfo e oz name ZIP_STORED s
      in (\<lparr>output_zip = oz, filename_in_zip = name, compression = ZIP_STORED, zipinfo = z\<rparr>, s'))"

definition exclude_file_info :: "writer \<Rightarrow> zipinfo_ref list \<Rightarrow> zipinfo_ref list" where
  "exclude_file_info w zip_infos =
     filter (\<lambda>z. filename (deref w z) \<noteq> filename_in_zip w) zip_infos"

definition swap_zipinfo :: "writer \<Rightarrow> ZipFile \<Rightarrow> ZipFile" where
  "swap_zipinfo w zip_file =
     zip_file\<lparr>filelist := exclude_file_info w (filelist zip_file) @ [Own],
              NameToInfo := (NameToInfo zip_file)(filename_in_zip w \<mapsto> Own)\<rparr>"

definition update_zip_info_time :: "'s env \<Rightarrow> writer \<times> 's world \<Rightarrow> writer \<times> 's world" where
  "update_zip_info_time e ws =
     (let (w, s) = ws; (stamp, s') = clock_read e s
      in (w\<lparr>zipinfo := (zipinfo w)\<lparr>date_time := stamp\<rparr>\<rparr>, s'))"

definition update_zipinfo_data ::
  "'s env \<Rightarrow> bytes option \<Rightarrow> bytes \<Rightarrow> writer \<times> 's world \<Rightarrow> writer \<times> 's world" where
  "update_zipinfo_data e chunk compressed_data ws =
     (let (w, s) = update_zip_info_time e ws;
          z = (zipinfo w)\<lparr>compress_size := compress_size (zipinfo w) + length compressed_data\<rparr>
      in case chunk of
           None \<Rightarrow> (w\<lparr>zipinfo := z\<rparr>, s)
         | Some c \<Rightarrow> (w\<lparr>zipinfo := z\<lparr>file_size := file_size z + length c,
                                      CRC := crc32 c (CRC z)\<rparr>\<rparr>, s))"

text \<open>\<^verbatim>\<open>self.zipinfo.file_size * 1.05 > ZIP64_LIMIT\<close>\<close>

definition force_zip64 :: "writer \<Rightarrow> bool" where
  "force_zip64 w = (real (file_size (zipinfo w)) * 1.05 > real ZIP64_LIMIT)"

definition write_zipinfo :: "writer \<Rightarrow> fobj option \<Rightarrow> error + (writer \<times> fobj)" where
  "write_zipinfo w write_stream =
     (case write_stream of
        None \<Rightarrow> Inl ArchiveClosed
      | Some f \<Rightarrow>
          (case FileHeader (zipinfo w) (force_zip64 w) of
             Inl err \<Rightarrow> Inl err
           | Inr (header, z') \<Rightarrow>
               Inr (w\<lparr>zipinfo := z'\<rparr>,
                    fp_write (fp_seek f (header_offset (zipinfo w))) header)))"

definition write_appended_data :: "writer \<Rightarrow> fobj option \<Rightarrow> bytes \<Rightarrow> error + fobj" where
  "write_appended_data w write_stream dat =
     (case write_stream of
        None \<Rightarrow> Inl ArchiveClosed
      | Some f \<Rightarrow>
          (let initial_offset = fp_tell f
           in Inr (fp_write (fp_seek f (initial_offset + compress_size (zipinfo w))) dat)))"

definition update_start_dir :: "ZipFile \<Rightarrow> fobj option \<Rightarrow> error + ZipFile" where
  "update_start_dir zip_file write_stream =
     (case write_stream of
        None \<Rightarrow> Inl ArchiveClosed
      | Some f \<Rightarrow> Inr (zip_file\<lparr>start_dir := fp_tell f\<rparr>))"

text \<open>
  The body of the \<^verbatim>\<open>with ZipFile(...) as zf\<close> block of \<^verbatim>\<open>_write\<close>. The stream is an object
  shared with \<open>zf\<close>, so each step's stream is stored back into the session.
\<close>

definition write_session ::
  "'s env \<Rightarrow> bytes option \<Rightarrow> bytes \<Rightarrow> writer \<times> ZipFile \<times> 's world
     \<Rightarrow> error + (writer \<times> ZipFile \<times> 's world)" where
  "write_session e chunk compressed_data st =
     (let (w, zf, s) = st;
          (w1, s1) = update_zip_info_time e (w, s);
          zf1 = swap_zipinfo w1 zf
      in case write_zipinfo w1 (fp zf1) of
           Inl err \<Rightarrow> Inl err
         | Inr (w2, f2) \<Rightarrow>
            (let zf2 = zf1\<lparr>fp := Some f2\<rparr>
             in case write_appended_data w2 (fp zf2) compressed_data of
                  Inl err \<Rightarrow> Inl err
                | Inr f3 \<Rightarrow>
                   (let zf3 = zf2\<lparr>fp := Some f3\<rparr>;
                        (w3, s3) = update_zipinfo_data e chunk compressed_data (w2, s1)
                    in case update_start_dir zf3 (fp zf3) of
                         Inl err \<Rightarrow> Inl err
                       | Inr zf4 \<Rightarrow>
                          (case write_zipinfo w3 (fp zf4) of
                             Inl err \<Rightarrow> Inl err
                           | Inr (w4, f5) \<Rightarrow>
                               Inr (w4, zf4\<lparr>fp := Some f5, didModify := True\<rparr>, s3)))))"

text \<open>
  \<^verbatim>\<open>_write\<close>: one append session on the archive. On an error the exception leaves the
  block; the state of the file after a failed call is not modelled.
\<close>

definition zip_write ::
  "'s env \<Rightarrow> writer \<Rightarrow> bytes option \<Rightarrow> bytes \<Rightarrow> 's world \<Rightarrow> error + (writer \<times> 's world)" where
  "zip_write e w chunk compressed_data s =
     (let old = files s (output_zip w)
      in case write_session e chunk compressed_data (w, ZipFile_append old, s) of
           Inl err \<Rightarrow> Inl err
         | Inr (w', zf, s') \<Rightarrow>
             Inr (w', s'\<lparr>files := (files s')(output_zip w := ZipFile_close e (zipinfo w') old zf)\<rparr>))"

definition Stored_write_chunk ::
  "'s env \<Rightarrow> writer \<Rightarrow> bytes \<Rightarrow> 's world \<Rightarrow> error + (writer \<times> 's world)" where
  "Stored_write_chunk e w chunk s = zip_write e w (Some chunk) chunk s"

definition Stored_flush :: "'s env \<Rightarrow> writer \<Rightarrow> 's world \<Rightarrow> error + (writer \<times> 's world)" where
  "Stored_flush e w s = Inr (w, s)"

definition Stored_close :: "'s env \<Rightarrow> writer \<Rightarrow> 's world \<Rightarrow> error + (writer \<times> 's world)" where
  "Stored_close e w s = Inr (w, s)"

subsection \<open>\<^verbatim>\<open>compressed_zip.py\<close>: adapters, the registry, \<^verbatim>\<open>ChunkedCompressedZipWriter\<close>\<close>

text \<open>
  The methods of an adapter object. \<^verbatim>\<open>EmptyCompress.compress\<close> returns its input and
  \<^verbatim>\<open>EmptyCompress.flush()\<close> returns no bytes; its \<^verbatim>\<open>flush\<close> takes no mode.
\<close>

definition adapter_compress :: "'s env \<Rightarrow> 's adapter \<Rightarrow> bytes \<Rightarrow> bytes \<times> 's adapter" where
  "adapter_compress e obj dat =
     (case obj of
        EmptyCompress \<Rightarrow> (dat, EmptyCompress)
      | Compressor c \<Rightarrow> (let (out, c') = compress e c dat in (out, Compressor c')))"

definition adapter_flush ::
  "'s env \<Rightarrow> 's adapter \<Rightarrow> nat option \<Rightarrow> error + (bytes \<times> 's adapter)" where
  "adapter_flush e obj mode =
     (case obj of
        EmptyCompress \<Rightarrow> (case mode of None \<Rightarrow> Inr ([], EmptyCompress) | Some m \<Rightarrow> Inl TypeError)
      | Compressor c \<Rightarrow> (let (out, c') = flush e c mode in Inr (out, Compressor c')))"

text \<open>\<^verbatim>\<open>zipfile._get_compressor\<close>: no compressor object for STORED.\<close>

definition lib_get_compressor :: "'s env \<Rightarrow> compression \<Rightarrow> 's option" where
  "lib_get_compressor e method =
     (if method = ZIP_STORED then None else Some (new_compressor e method))"

text \<open>Creating an object: it gets the next free address.\<close>

definition new_object :: "'s adapter \<Rightarrow> 's world \<Rightarrow> nat \<times> 's world" where
  "new_object obj s =
     (next_obj s, s\<lparr>objects := (objects s)(next_obj s := obj), next_obj := Suc (next_obj s)\<rparr>)"

text \<open>\<^verbatim>\<open>ChunkedCompressedZipWriter(output_zip, filename_in_zip, compression)\<close>\<close>

definition ChunkedCompressedZipWriter ::
  "'s env \<Rightarrow> string \<Rightarrow> string \<Rightarrow> compression \<Rightarrow> 's world \<Rightarrow> writer \<times> 's world" where
  "ChunkedCompressedZipWriter e oz name method s =
     (let (z, s') = extract_zipinfo e oz name method s
      in (\<lparr>output_zip = oz, filename_in_zip = name, compression = method, zipinfo = z\<rparr>, s'))"

definition compressor_path :: "writer \<Rightarrow> string" where
  "compressor_path w = output_zip w @ ''/'' @ filename_in_zip w"

text \<open>
  \<^verbatim>\<open>get_compressor\<close> returns the address of the adapter object. The throwaway archive in
  a temporary file, from which the new compressor is taken, leaves no trace.
\<close>

definition get_compressor :: "'s env \<Rightarrow> writer \<Rightarrow> 's world \<Rightarrow> nat \<times> 's world" where
  "get_compressor e w s =
     (if compression w = ZIP_STORED then new_object EmptyCompress s
      else case zip_compressor_storage s (compressor_path w) of
             Some a \<Rightarrow> (a, s)
           | None \<Rightarrow>
               (let (a, s') = (case lib_get_compressor e (compression w) of
                                 None \<Rightarrow> new_object EmptyCompress s
                               | Some c \<Rightarrow> new_object (Compressor c) s)
                in (a, s'\<lparr>zip_compressor_storage :=
                            (zip_compressor_storage s')(compressor_path w \<mapsto> a)\<rparr>)))"

definition Compressed_write_chunk ::
  "'s env \<Rightarrow> writer \<Rightarrow> bytes \<Rightarrow> 's world \<Rightarrow> error + (writer \<times> 's world)" where
  "Compressed_write_chunk e w chunk s =
     (let (a, s1) = get_compressor e w s;
          (dat, obj) = adapter_compress e (objects s1 a) chunk
      in zip_write e w (Some chunk) dat (s1\<lparr>objects := (objects s1)(a := obj)\<rparr>))"

definition Compressed_flush ::
  "'s env \<Rightarrow> writer \<Rightarrow> 's world \<Rightarrow> error + (writer \<times> 's world)" where
  "Compressed_flush e w s =
     (if compression w \<notin> set [ZIP_BZIP2, ZIP_LZMA] then Inr (w, s)
      else (let (a, s1) = get_compressor e w s
            in case adapter_flush e (objects s1 a) None of
                 Inl err \<Rightarrow> Inl err
               | Inr (buffered_data, obj) \<Rightarrow>
                   (let s2 = s1\<lparr>objects := (objects s1)(a := obj)\<rparr>
                    in if length buffered_data = 0 then Inr (w, s2)
                       else zip_write e w None buffered_data s2)))"

definition Compressed_close ::
  "'s env \<Rightarrow> writer \<Rightarrow> 's world \<Rightarrow> error + (writer \<times> 's world)" where
  "Compressed_close e w s =
     (if compression w \<noteq> ZIP_DEFLATED then Inr (w, s)
      else (let (a, s1) = get_compressor e w s
            in case adapter_flush e (objects s1 a) (Some Z_FULL_FLUSH) of
                 Inl err \<Rightarrow> Inl err
               | Inr (buffered_data, obj) \<Rightarrow>
                   (let s2 = s1\<lparr>objects := (objects s1)(a := obj)\<rparr>
                    in if length buffered_data = 0 then Inr (w, s2)
                       else zip_write e w None buffered_data s2)))"

subsection \<open>\<^verbatim>\<open>__init__.py\<close>: the chunk loop\<close>


text \<open>
  \<^verbatim>\<open>read_file_in_chunks\<close> on a file whose unread bytes are \<open>rest\<close>: \<^verbatim>\<open>read(chunk_size)\<close>
  returns the next \<open>chunk_size\<close> bytes, fewer at the end, none at the end of the file.
\<close>

function read_file_in_chunks :: "bytes \<Rightarrow> nat \<Rightarrow> bytes list" where
  "read_file_in_chunks rest chunk_size =
     (if take chunk_size rest = [] then []
      else take chunk_size rest # read_file_in_chunks (drop chunk_size rest) chunk_size)"
  by pat_completeness auto
termination
  by (relation "measure (\<lambda>(rest, chunk_size). length rest)") auto


text \<open>
  One round of each loop: a writer is constructed, used inside \<^verbatim>\<open>with\<close>, and the exit of
  the block calls its \<^verbatim>\<open>close()\<close>.
\<close>

definition stored_chunk_step ::
  "'s env \<Rightarrow> string \<Rightarrow> string \<Rightarrow> bytes \<Rightarrow> 's world \<Rightarrow> error + 's world" where
  "stored_chunk_step e oz name chunk s =
     (let (zw, s1) = ChunkedStoredZipWriter e oz name s
      in case Stored_write_chunk e zw chunk s1 of
           Inl err \<Rightarrow> Inl err
         | Inr (zw', s2) \<Rightarrow> map_sum id snd (Stored_close e zw' s2))"

definition stored_final_step :: "'s env \<Rightarrow> string \<Rightarrow> string \<Rightarrow> 's world \<Rightarrow> error + 's world" where
  "stored_final_step e oz name s =
     (let (zw, s1) = ChunkedStoredZipWriter e oz name s
      in case Stored_flush e zw s1 of
           Inl err \<Rightarrow> Inl err
         | Inr (zw', s2) \<Rightarrow> map_sum id snd (Stored_close e zw' s2))"

definition compressed_chunk_step ::
  "'s env \<Rightarrow> string \<Rightarrow> string \<Rightarrow> compression \<Rightarrow> bytes \<Rightarrow> 's world \<Rightarrow> error + 's world" where
  "compressed_chunk_step e oz name method chunk s =
     (let (zw, s1) = ChunkedCompressedZipWriter e oz name method s
      in case Compressed_write_chunk e zw chunk s1 of
           Inl err \<Rightarrow> Inl err
         | Inr (zw', s2) \<Rightarrow> map_sum id snd (Compressed_close e zw' s2))"

definition compressed_final_step ::
  "'s env \<Rightarrow> string \<Rightarrow> string \<Rightarrow> compression \<Rightarrow> 's world \<Rightarrow> error + 's world" where
  "compressed_final_step e oz name method s =
     (let (zw, s1) = ChunkedCompressedZipWriter e oz name method s
      in case Compressed_flush e zw s1 of
           Inl err \<Rightarrow> Inl err
         | Inr (zw', s2) \<Rightarrow> map_sum id snd (Compressed_close e zw' s2))"

text \<open>A \<^verbatim>\<open>for\<close> loop whose body may raise.\<close>

fun for_each :: "('a \<Rightarrow> 'st \<Rightarrow> error + 'st) \<Rightarrow> 'a list \<Rightarrow> 'st \<Rightarrow> error + 'st" where
  "for_each body [] s = Inr s"
| "for_each body (x # xs) s =
     (case body x s of Inl err \<Rightarrow> Inl err | Inr s' \<Rightarrow> for_each body xs s')"

text \<open>
  The protocol of \<^verbatim>\<open>zip_file_in_chunks\<close> for a given sequence of chunks and entry name, and
  \<^verbatim>\<open>zip_file_in_chunks\<close> itself, where \<open>src\<close> is the content of \<open>input_file\<close>.
\<close>

definition zip_chunks ::
  "'s env \<Rightarrow> bytes list \<Rightarrow> string \<Rightarrow> string \<Rightarrow> compression \<Rightarrow> 's world \<Rightarrow> error + 's world" where
  "zip_chunks e chunks name oz method s =
     (if method = ZIP_STORED then
        (case for_each (stored_chunk_step e oz name) chunks s of
           Inl err \<Rightarrow> Inl err
         | Inr s' \<Rightarrow> stored_final_step e oz name s')
      else
        (case for_each (compressed_chunk_step e oz name method) chunks s of
           Inl err \<Rightarrow> Inl err
         | Inr s' \<Rightarrow> compressed_final_step e oz name method s'))"


subsection \<open>Reading an entry back (\<^verbatim>\<open>ZipFile(path, "r").open(name).read()\<close>)\<close>

text \<open>
  The reader of the standard library, as far as it decides what bytes come back: the
  descriptor is taken from the directory, the local header at its \<open>header_offset\<close> gives
  the lengths of the name and of the extra field and so the start of the data,
  \<open>compress_size\<close> bytes are read and decompressed, the result is cut to \<open>file_size\<close> and
  its CRC-32 is compared with the descriptor's.
\<close>

definition ZipFile_read :: "'s env \<Rightarrow> zip_archive option \<Rightarrow> string \<Rightarrow> error + bytes" where
  "ZipFile_read e file name =
     (case ZipFile_getinfo file name of
        Inl err \<Rightarrow> Inl err
      | Inr z \<Rightarrow>
         (let bs = (case file of None \<Rightarrow> [] | Some a \<Rightarrow> raw a);
              fheader = take 30 (drop (header_offset z) bs);
              fname_len = le_val (take 2 (drop 26 fheader));
              extra_len = le_val (take 2 (drop 28 fheader));
              fname = take fname_len (drop (header_offset z + 30) bs);
              start = header_offset z + 30 + fname_len + extra_len;
              comp = take (compress_size z) (drop start bs)
          in if length fheader \<noteq> 30 \<or> take 4 fheader \<noteq> [0x50, 0x4B, 3, 4] then Inl BadZipFile
             else if fname \<noteq> map of_char (filename z) then Inl BadZipFile
             else if length comp < compress_size z then Inl BadZipFile
             else (case (if compress_type z = ZIP_STORED then Some comp
                         else decompress e (compress_type z) comp) of
                     None \<Rightarrow> Inl BadZipFile
                   | Some plain \<Rightarrow>
                       (let out = take (file_size z) plain
                        in if crc32 out 0 \<noteq> CRC z then Inl BadZipFile else Inr out))))"

subsection \<open>Notions used in the statements\<close>

text \<open>The stream and the listing an append session starts from.\<close>

definition opened :: "zip_archive option \<Rightarrow> fobj" where
  "opened file = (case file of None \<Rightarrow> \<lparr>data = [], pos = 0\<rparr>
                  | Some a \<Rightarrow> \<lparr>data = raw a, pos = dir_offset a\<rparr>)"

definition listed :: "zip_archive option \<Rightarrow> zipinfo list" where
  "listed file = (case file of None \<Rightarrow> [] | Some a \<Rightarrow> directory a)"

text \<open>A descriptor whose fields fit the widths of the local header.\<close>

definition packable :: "zipinfo \<Rightarrow> bool" where
  "packable z \<longleftrightarrow>
     length (filename z) < 2 ^ 16 \<and> length (extra z) + 20 < 2 ^ 16 \<and> flag_bits z < 2 ^ 16
     \<and> extract_version z < 64 \<and> compress_size z < 2 ^ 32 \<and> file_size z < 2 ^ 64"


text \<open>
  An environment and a process state to run the model on: a compressor that buffers its
  input and emits it when flushed, a fixed clock, a four-byte end record; no files, an
  empty registry.
\<close>

definition demo_env :: "bytes env" where
  "demo_env =
     \<lparr>now = (\<lambda>k. (0, 33)), end_record = (\<lambda>zs off. [0x50, 0x4B, 5, 6]),
      new_compressor = (\<lambda>m. []), compress = (\<lambda>c d. ([], c @ d)),
      flush = (\<lambda>c mode. (c, [])), decompress = (\<lambda>m bs. Some bs)\<rparr>"

definition demo_world :: "bytes world" where
  "demo_world =
     \<lparr>files = Map.empty, zip_compressor_storage = Map.empty,
      objects = (\<lambda>a. EmptyCompress), next_obj = 0, ticks = 0\<rparr>"

definition demo_writer :: writer where
  "demo_writer = fst (ChunkedStoredZipWriter demo_env ''out.zip'' ''f'' demo_world)"

text \<open>
  The registry is well formed: its addresses are allocated, and no two keys share an
  object.
\<close>

definition registry_ok :: "'s world \<Rightarrow> bool" where
  "registry_ok s \<longleftrightarrow>
     (\<forall>k a. zip_compressor_storage s k = Some a \<longrightarrow> a < next_obj s)
     \<and> (\<forall>k k' a. zip_compressor_storage s k = Some a \<longrightarrow> zip_compressor_storage s k' = Some a
            \<longrightarrow> k = k')"

text \<open>Two writers whose (archive path, entry name) pairs differ and whose keys coincide.\<close>

definition collide_w1 :: writer where
  "collide_w1 = \<lparr>output_zip = ''a'', filename_in_zip = ''b/c'', compression = ZIP_DEFLATED,
                  zipinfo = ZipInfo ''b/c'' (0, 33)\<rparr>"

definition collide_w2 :: writer where
  "collide_w2 = \<lparr>output_zip = ''a/b'', filename_in_zip = ''c'', compression = ZIP_DEFLATED,
                  zipinfo = ZipInfo ''c'' (0, 33)\<rparr>"

text \<open>Two more example writers, for a DEFLATE and a BZIP2 entry.\<close>

definition demo_deflate :: writer where
  "demo_deflate = \<lparr>output_zip = ''out.zip'', filename_in_zip = ''f'', compression = ZIP_DEFLATED,
                    zipinfo = (ZipInfo ''f'' (0, 33))\<lparr>compress_type := ZIP_DEFLATED\<rparr>\<rparr>"

definition demo_bzip2 :: writer where
  "demo_bzip2 = \<lparr>output_zip = ''other.zip'', filename_in_zip = ''g'', compression = ZIP_BZIP2,
                  zipinfo = (ZipInfo ''g'' (0, 33))\<lparr>compress_type := ZIP_BZIP2\<rparr>\<rparr>"

text \<open>A state in which both example keys hold a compressor with two buffered bytes.\<close>

definition demo_world_buffered :: "bytes world" where
  "demo_world_buffered =
     \<lparr>files = Map.empty,
      zip_compressor_storage = [''out.zip/f'' \<mapsto> 0, ''other.zip/g'' \<mapsto> 1],
      objects = (\<lambda>a. Compressor [7, 8]), next_obj = 2, ticks = 0\<rparr>"









section \<open>Properties\<close>

subsection \<open>Fields, checksums, headers\<close>

lemma length_le_bytes [simp]: "length (le_bytes k v) = k"
  by (induction k arbitrary: v) auto

lemma struct_pack_Inl: "struct_pack fs = Inl err \<Longrightarrow> err = StructError"
  by (simp add: struct_pack_def split: if_splits)

lemma struct_pack_length: "struct_pack fs = Inr bs \<Longrightarrow> length bs = sum_list (map fst fs)"
proof -
  have "length (concat (map (\<lambda>(k, v). le_bytes k v) fs)) = sum_list (map fst fs)"
    by (induction fs) (auto simp: case_prod_beta)
  then show "struct_pack fs = Inr bs \<Longrightarrow> ?thesis"
    by (auto simp: struct_pack_def split: if_splits)
qed

lemma zip64_extra_length: "zip64_extra z = Inr bs \<Longrightarrow> length bs = 20"
  by (auto simp: zip64_extra_def split: prod.splits dest: struct_pack_length)

lemma fixed_header_length: "fixed_header z b fl n m = Inr bs \<Longrightarrow> length bs = 30"
  by (auto simp: fixed_header_def split: prod.splits dest: struct_pack_length)

lemma fixed_header_Inl: "fixed_header z b fl n m = Inl err \<Longrightarrow> err = StructError"
  by (auto simp: fixed_header_def split: prod.splits dest: struct_pack_Inl)

lemma FileHeader_Inl: "FileHeader z b = Inl err \<Longrightarrow> err = StructError"
  by (auto simp: FileHeader_def Let_def zip64_extra_def
           split: prod.splits sum.splits if_splits dest: struct_pack_Inl fixed_header_Inl)

lemma FileHeader_Inr:
  assumes "FileHeader z b = Inr (h, z')"
  shows "z' = raise_versions z b"
    and "\<exists>fixed z64. length fixed = 30 \<and> length z64 = (if b then 20 else 0)
            \<and> (if b then zip64_extra z = Inr z64 else z64 = [])
            \<and> fixed_header z' b (snd (encodeFilenameFlags z)) (length (filename z))
                 (length (extra z) + length z64) = Inr fixed
            \<and> h = fixed @ map of_char (filename z) @ extra z @ z64"
  using assms
  by (auto simp: FileHeader_def Let_def encodeFilenameFlags_def
           split: prod.splits sum.splits if_splits
           dest: fixed_header_length zip64_extra_length)

lemma FileHeader_length:
  assumes "FileHeader z b = Inr (h, z')"
  shows "length h = 30 + length (filename z) + length (extra z) + (if b then 20 else 0)"
  using FileHeader_Inr(2)[OF assms] by auto

lemma raise_versions_simps [simp]:
  "filename (raise_versions z b) = filename z"
  "date_time (raise_versions z b) = date_time z"
  "compress_type (raise_versions z b) = compress_type z"
  "CRC (raise_versions z b) = CRC z"
  "file_size (raise_versions z b) = file_size z"
  "compress_size (raise_versions z b) = compress_size z"
  "header_offset (raise_versions z b) = header_offset z"
  "extra (raise_versions z b) = extra z"
  "flag_bits (raise_versions z b) = flag_bits z"
  by (simp_all add: raise_versions_def)

lemma le_val_le_bytes: "v < 256 ^ k \<Longrightarrow> le_val (le_bytes k v) = v"
proof (induction k arbitrary: v)
  case 0
  then show ?case by simp
next
  case (Suc k)
  have "v div 256 < 256 ^ k" using Suc.prems by (simp add: less_mult_imp_div_less mult.commute)
  then have "le_val (le_bytes k (v div 256)) = v div 256" by (rule Suc.IH)
  moreover have "unat (of_nat (v mod 256) :: byte) = v mod 256"
    by (simp add: unat_of_nat take_bit_nat_eq_self)
  ultimately show ?case by simp
qed


lemma crc32_Nil [simp]: "crc32 [] v = v"
  by (simp add: crc32_def)

lemma force_zip64_iff: "force_zip64 w \<longleftrightarrow> 2045222521 \<le> file_size (zipinfo w)"
  by (simp add: force_zip64_def ZIP64_LIMIT_def) linarith

lemma or_2048_less: "(x::nat) < 2 ^ 16 \<Longrightarrow> or x 0x800 < 2 ^ 16"
proof -
  assume "x < 2 ^ 16"
  then have "take_bit 16 x = x" by (simp add: take_bit_nat_eq_self)
  moreover have "take_bit 16 (2048::nat) = 2048" by (simp add: take_bit_nat_eq_self)
  ultimately have "take_bit 16 (or x 2048) = or x 2048"
    by simp
  then show ?thesis
    by (metis take_bit_nat_less_exp)
qed

lemma min_version_le: "min_version z b \<le> 63"
  by (simp add: min_version_def Let_def split: compression.splits)

lemma FileHeader_succeeds:
  assumes "packable z" and "\<not> b \<longrightarrow> file_size z < 2 ^ 32"
  shows "\<exists>h. FileHeader z b = Inr (h, raise_versions z b)"
proof -
  have hs: "fst (header_sizes z) < 2 ^ 32" 
    using unsigned_less[of "CRC z", where 'a=nat] by (simp add: header_sizes_def)
  have cs: "fst (snd (header_sizes z)) < 2 ^ 32" "fst (snd (header_sizes z)) < 2 ^ 64"
    using assms(1) by (simp_all add: header_sizes_def packable_def)
  have fs: "snd (snd (header_sizes z)) < 2 ^ 64" "\<not> b \<Longrightarrow> snd (snd (header_sizes z)) < 2 ^ 32"
    using assms by (simp_all add: header_sizes_def packable_def)
  have z64: "b \<Longrightarrow> \<exists>bs. zip64_extra z = Inr bs \<and> length bs = 20"
    using cs fs by (auto simp: zip64_extra_def struct_pack_def split: prod.splits)
  obtain flags where enc: "encodeFilenameFlags z = (map of_char (filename z), flags)"
    by (cases "list_all (\<lambda>c. of_char c < (128::nat)) (filename z)")
       (simp_all add: encodeFilenameFlags_def)
  have fl: "flags < 2 ^ 16"
    using enc assms(1) or_2048_less[of "flag_bits z"]
    by (auto simp: encodeFilenameFlags_def packable_def split: if_splits)
  have ev: "extract_version (raise_versions z b) < 256"
    using assms(1) min_version_le[of z b] by (simp add: raise_versions_def packable_def)
  have hsr: "header_sizes (raise_versions z b) = header_sizes z"
    by (simp add: header_sizes_def)
  have d1: "unat (fst (date_time z)) < 2 ^ 16" "unat (snd (date_time z)) < 2 ^ 16"
    using unsigned_less[of "fst (date_time z)", where 'a=nat]
      unsigned_less[of "snd (date_time z)", where 'a=nat] by simp_all
  have mid: "method_id (compress_type z) < 2 ^ 16" by (cases "compress_type z") simp_all
  have fx: "n < 2 ^ 16 \<Longrightarrow> m < 2 ^ 16 \<Longrightarrow>
      \<exists>bs. fixed_header (raise_versions z b) b flags n m = Inr bs" for n m
    using hs cs fs fl ev d1 mid
    by (cases "header_sizes z") (simp add: fixed_header_def hsr struct_pack_def)
  have nl: "length (filename z) < 2 ^ 16" "length (extra z) + 20 < 2 ^ 16"
    using assms(1) by (simp_all add: packable_def)
  show ?thesis
  proof (cases b)
    case True
    with z64 obtain bs where bs: "zip64_extra z = Inr bs" "length bs = 20" by blast
    from fx[of "length (filename z)" "length (extra z) + 20"] nl
    obtain fixed where "fixed_header (raise_versions z b) b flags
        (length (filename z)) (length (extra z) + 20) = Inr fixed" by auto
    then show ?thesis using True bs
      by (simp add: FileHeader_def Let_def enc)
  next
    case False
    from fx[of "length (filename z)" "length (extra z)"] nl
    obtain fixed where "fixed_header (raise_versions z b) b flags
        (length (filename z)) (length (extra z)) = Inr fixed" by auto
    then show ?thesis using False
      by (simp add: FileHeader_def Let_def enc)
  qed
qed

lemma fixed_header_fields:
  assumes "fixed_header z b fl n m = Inr fixed"
  shows "le_val (take 4 (drop 14 fixed)) = fst (header_sizes z)"
    and "le_val (take 4 (drop 18 fixed)) = (if b then 0xffffffff else fst (snd (header_sizes z)))"
    and "le_val (take 4 (drop 22 fixed)) = (if b then 0xffffffff else snd (snd (header_sizes z)))"
    and "le_val (take 2 (drop 26 fixed)) = n"
    and "le_val (take 2 (drop 28 fixed)) = m"
    and "take 4 fixed = [0x50, 0x4B, 3, 4]"
    and "length fixed = 30"
proof -
  obtain crc cs fs where hs: "header_sizes z = (crc, cs, fs)" by (cases "header_sizes z")
  let ?c = "if b then 0xffffffff else cs" and ?f = "if b then 0xffffffff else fs"
  from assms hs have fx: "fixed = le_bytes 1 0x50 @ le_bytes 1 0x4B @ le_bytes 1 3 @ le_bytes 1 4
      @ le_bytes 1 (extract_version z) @ le_bytes 1 0 @ le_bytes 2 fl
      @ le_bytes 2 (method_id (compress_type z))
      @ le_bytes 2 (unat (fst (date_time z))) @ le_bytes 2 (unat (snd (date_time z)))
      @ le_bytes 4 crc @ le_bytes 4 ?c @ le_bytes 4 ?f @ le_bytes 2 n @ le_bytes 2 m"
    and bd: "crc < 256 ^ 4" "?c < 256 ^ 4" "?f < 256 ^ 4" "n < 256 ^ 2" "m < 256 ^ 2"
    by (auto simp: fixed_header_def struct_pack_def split: if_splits)
  show "le_val (take 4 (drop 14 fixed)) = fst (header_sizes z)"
    using le_val_le_bytes[OF bd(1)] by (simp add: fx hs)
  show "le_val (take 4 (drop 18 fixed)) = (if b then 0xffffffff else fst (snd (header_sizes z)))"
    using le_val_le_bytes[OF bd(2)] by (simp add: fx hs)
  show "le_val (take 4 (drop 22 fixed)) = (if b then 0xffffffff else snd (snd (header_sizes z)))"
    using le_val_le_bytes[OF bd(3)] by (simp add: fx hs)
  show "le_val (take 2 (drop 26 fixed)) = n"
    using le_val_le_bytes[OF bd(4)] by (simp add: fx)
  show "le_val (take 2 (drop 28 fixed)) = m"
    using le_val_le_bytes[OF bd(5)] by (simp add: fx)
  show "take 4 fixed = [0x50, 0x4B, 3, 4]" by (simp add: fx)
  show "length fixed = 30" by (simp add: fx)
qed



lemma header_sizes_raise [simp]: "header_sizes (raise_versions z b) = header_sizes z"
  by (simp add: header_sizes_def)


lemma raise_versions_idem [simp]: "raise_versions (raise_versions z b) b = raise_versions z b"
  by (simp add: raise_versions_def min_version_def)

lemma FileHeader_raise: "FileHeader (raise_versions z b) b = FileHeader z b"
proof -
  have e: "encodeFilenameFlags (raise_versions z c) = encodeFilenameFlags z" for c
    by (simp add: encodeFilenameFlags_def)
  have x: "zip64_extra (raise_versions z c) = zip64_extra z" for c
    by (simp add: zip64_extra_def)
  show ?thesis
    by (cases b) (simp_all add: FileHeader_def e x Let_def cong: sum.case_cong)
qed

lemma FileHeader_idem:
  assumes "FileHeader z b = Inr (h, z')"
  shows "FileHeader z' b = Inr (h, z')"
  using assms FileHeader_Inr(1)[OF assms] by (simp add: FileHeader_raise)

subsection \<open>Streams and one append session\<close>

lemma fp_write_pos [simp]: "pos (fp_write f bs) = pos f + length bs"
  by (simp add: fp_write_def)

lemma fp_seek_simps [simp]: "pos (fp_seek f p) = p" "data (fp_seek f p) = data f"
  by (simp_all add: fp_seek_def)

lemma fp_write_at:
  assumes "data f = A @ C" and "pos f = length A"
  shows "data (fp_write f bs) = A @ bs @ drop (length bs) C"
  using assms by (simp add: fp_write_def)

lemma fp_write_read_back:
  "take (length bs) (drop (pos f) (data (fp_write f bs))) = bs"
  by (simp add: fp_write_def)

lemma write_session_Inr:
  assumes "write_session e chunk dat (w, zf, s) = Inr (w', zf', s')"
  obtains w1 s1 f w2 f2 f3 w3 f5 where
    "update_zip_info_time e (w, s) = (w1, s1)"
    "fp zf = Some f"
    "write_zipinfo w1 (Some f) = Inr (w2, f2)"
    "write_appended_data w2 (Some f2) dat = Inr f3"
    "update_zipinfo_data e chunk dat (w2, s1) = (w3, s')"
    "write_zipinfo w3 (Some f3) = Inr (w', f5)"
    "zf' = (swap_zipinfo w1 zf)\<lparr>fp := Some f5, start_dir := fp_tell f3, didModify := True\<rparr>"
proof -
  obtain w1 s1 where a: "update_zip_info_time e (w, s) = (w1, s1)" by fastforce
  from assms a obtain w2 f2 where b: "write_zipinfo w1 (fp (swap_zipinfo w1 zf)) = Inr (w2, f2)"
    by (auto simp: write_session_def Let_def split: sum.splits prod.splits)
  have fpz: "fp (swap_zipinfo w1 zf) = fp zf" by (simp add: swap_zipinfo_def)
  from b fpz obtain f where f: "fp zf = Some f"
    by (auto simp: write_zipinfo_def split: option.splits)
  from assms a b obtain f3 where c: "write_appended_data w2 (Some f2) dat = Inr f3"
    by (auto simp: write_session_def Let_def split: sum.splits prod.splits)
  obtain w3 s3 where d: "update_zipinfo_data e chunk dat (w2, s1) = (w3, s3)" by fastforce
  from assms a b c d obtain w4 f5 where g: "write_zipinfo w3 (Some f3) = Inr (w4, f5)"
    by (auto simp: write_session_def Let_def update_start_dir_def split: sum.splits prod.splits)
  from assms a b c d g have
    "w' = w4" "s' = s3"
    "zf' = (swap_zipinfo w1 zf)\<lparr>fp := Some f5, start_dir := fp_tell f3, didModify := True\<rparr>"
    by (auto simp: write_session_def Let_def update_start_dir_def split: sum.splits prod.splits)
  with a b c d g f fpz show ?thesis using that by auto
qed

lemma update_zip_info_time_eq:
  "update_zip_info_time e (w, s) =
     (w\<lparr>zipinfo := (zipinfo w)\<lparr>date_time := now e (ticks s)\<rparr>\<rparr>, s\<lparr>ticks := Suc (ticks s)\<rparr>)"
  by (simp add: update_zip_info_time_def clock_read_def)

lemma update_zipinfo_data_eq:
  "update_zipinfo_data e chunk dat (w, s) =
     (w\<lparr>zipinfo := (zipinfo w)\<lparr>date_time := now e (ticks s),
          compress_size := compress_size (zipinfo w) + length dat,
          file_size := file_size (zipinfo w) + (case chunk of None \<Rightarrow> 0 | Some c \<Rightarrow> length c),
          CRC := (case chunk of None \<Rightarrow> CRC (zipinfo w) | Some c \<Rightarrow> crc32 c (CRC (zipinfo w)))\<rparr>\<rparr>,
      s\<lparr>ticks := Suc (ticks s)\<rparr>)"
  by (cases chunk) (simp_all add: update_zipinfo_data_def update_zip_info_time_eq)

lemma write_zipinfo_Inr:
  assumes "write_zipinfo w (Some f) = Inr (w', f')"
  obtains h where
    "FileHeader (zipinfo w) (force_zip64 w) = Inr (h, zipinfo w')"
    "w' = w\<lparr>zipinfo := raise_versions (zipinfo w) (force_zip64 w)\<rparr>"
    "f' = fp_write (fp_seek f (header_offset (zipinfo w))) h"
  using assms FileHeader_Inr(1)
  by (fastforce simp: write_zipinfo_def split: sum.splits prod.splits)

lemma write_appended_data_Some:
  "write_appended_data w (Some f) dat
     = Inr (fp_write (fp_seek f (pos f + compress_size (zipinfo w))) dat)"
  by (simp add: write_appended_data_def fp_tell_def)

text \<open>What a successful session does to the writer, the stream and the listing.\<close>

lemma write_session_effect:
  assumes ok: "write_session e chunk dat (w, zf, s) = Inr (w', zf', s')"
  obtains f h1 z1 h2 f3 where
    "fp zf = Some f"
    "FileHeader ((zipinfo w)\<lparr>date_time := now e (ticks s)\<rparr>) (force_zip64 w) = Inr (h1, z1)"
    "f3 = fp_write (fp_seek (fp_write (fp_seek f (header_offset (zipinfo w))) h1)
                       (header_offset (zipinfo w) + length h1 + compress_size (zipinfo w))) dat"
    "FileHeader (z1\<lparr>date_time := now e (Suc (ticks s)),
          compress_size := compress_size (zipinfo w) + length dat,
          file_size := file_size (zipinfo w) + (case chunk of None \<Rightarrow> 0 | Some c \<Rightarrow> length c),
          CRC := (case chunk of None \<Rightarrow> CRC (zipinfo w) | Some c \<Rightarrow> crc32 c (CRC (zipinfo w)))\<rparr>)
        (force_zip64 w') = Inr (h2, zipinfo w')"
    "fp zf' = Some (fp_write (fp_seek f3 (header_offset (zipinfo w))) h2)"
    "start_dir zf' = pos f3"
    "filelist zf' = exclude_file_info w (filelist zf) @ [Own]"
    "didModify zf'"
    "s' = s\<lparr>ticks := Suc (Suc (ticks s))\<rparr>"
    "output_zip w' = output_zip w" "filename_in_zip w' = filename_in_zip w"
    "compression w' = compression w"
proof -
  from ok obtain w1 s1 f w2 f2 f3 w3 f5 where st:
    "update_zip_info_time e (w, s) = (w1, s1)"
    "fp zf = Some f"
    "write_zipinfo w1 (Some f) = Inr (w2, f2)"
    "write_appended_data w2 (Some f2) dat = Inr f3"
    "update_zipinfo_data e chunk dat (w2, s1) = (w3, s')"
    "write_zipinfo w3 (Some f3) = Inr (w', f5)"
    "zf' = (swap_zipinfo w1 zf)\<lparr>fp := Some f5, start_dir := fp_tell f3, didModify := True\<rparr>"
    by (rule write_session_Inr)
  have w1: "w1 = w\<lparr>zipinfo := (zipinfo w)\<lparr>date_time := now e (ticks s)\<rparr>\<rparr>"
    and s1: "s1 = s\<lparr>ticks := Suc (ticks s)\<rparr>"
    using st(1) by (simp_all add: update_zip_info_time_eq)
  have fz1: "force_zip64 w1 = force_zip64 w" by (simp add: w1 force_zip64_def)
  from st(3) obtain h1 where h1:
    "FileHeader (zipinfo w1) (force_zip64 w1) = Inr (h1, zipinfo w2)"
    "w2 = w1\<lparr>zipinfo := raise_versions (zipinfo w1) (force_zip64 w1)\<rparr>"
    "f2 = fp_write (fp_seek f (header_offset (zipinfo w1))) h1"
    by (rule write_zipinfo_Inr)
  have f3: "f3 = fp_write (fp_seek f2 (pos f2 + compress_size (zipinfo w2))) dat"
    using st(4) by (simp add: write_appended_data_Some)
  have w3: "w3 = w2\<lparr>zipinfo := (zipinfo w2)\<lparr>date_time := now e (ticks s1),
          compress_size := compress_size (zipinfo w2) + length dat,
          file_size := file_size (zipinfo w2) + (case chunk of None \<Rightarrow> 0 | Some c \<Rightarrow> length c),
          CRC := (case chunk of None \<Rightarrow> CRC (zipinfo w2) | Some c \<Rightarrow> crc32 c (CRC (zipinfo w2)))\<rparr>\<rparr>"
    and s': "s' = s1\<lparr>ticks := Suc (ticks s1)\<rparr>"
    using st(5) by (simp_all add: update_zipinfo_data_eq)
  from st(6) obtain h2 where h2:
    "FileHeader (zipinfo w3) (force_zip64 w3) = Inr (h2, zipinfo w')"
    "w' = w3\<lparr>zipinfo := raise_versions (zipinfo w3) (force_zip64 w3)\<rparr>"
    "f5 = fp_write (fp_seek f3 (header_offset (zipinfo w3))) h2"
    by (rule write_zipinfo_Inr)
  have fz3: "force_zip64 w' = force_zip64 w3" by (simp add: h2(2) force_zip64_def)
  have "filename (deref w1 r) = filename (deref w r)" for r
    by (cases r) (simp_all add: deref_def w1)
  then have excl: "exclude_file_info w1 (filelist zf) = exclude_file_info w (filelist zf)"
    by (simp add: exclude_file_info_def w1)
  show ?thesis
  proof (rule that[of f h1 "zipinfo w2" f3 h2])
    show "fp zf = Some f" by (rule st(2))
    show "FileHeader ((zipinfo w)\<lparr>date_time := now e (ticks s)\<rparr>) (force_zip64 w) = Inr (h1, zipinfo w2)"
      using h1(1) by (simp add: w1 fz1[unfolded w1])
    show "f3 = fp_write (fp_seek (fp_write (fp_seek f (header_offset (zipinfo w))) h1)
                       (header_offset (zipinfo w) + length h1 + compress_size (zipinfo w))) dat"
      by (simp add: f3 h1(3) h1(2) w1 add.assoc)
    show "FileHeader ((zipinfo w2)\<lparr>date_time := now e (Suc (ticks s)),
          compress_size := compress_size (zipinfo w) + length dat,
          file_size := file_size (zipinfo w) + (case chunk of None \<Rightarrow> 0 | Some c \<Rightarrow> length c),
          CRC := (case chunk of None \<Rightarrow> CRC (zipinfo w) | Some c \<Rightarrow> crc32 c (CRC (zipinfo w)))\<rparr>)
        (force_zip64 w') = Inr (h2, zipinfo w')"
      using h2(1) by (simp add: fz3 w3 s1 h1(2) w1 cong: option.case_cong)
    show "fp zf' = Some (fp_write (fp_seek f3 (header_offset (zipinfo w))) h2)"
      by (simp add: st(7) h2(3) w3 h1(2) w1)
    show "start_dir zf' = pos f3" by (simp add: st(7) fp_tell_def)
    show "filelist zf' = exclude_file_info w (filelist zf) @ [Own]"
      by (simp add: st(7) swap_zipinfo_def excl)
    show "didModify zf'" by (simp add: st(7))
    show "s' = s\<lparr>ticks := Suc (Suc (ticks s))\<rparr>" by (simp add: s' s1)
    show "output_zip w' = output_zip w" "filename_in_zip w' = filename_in_zip w"
      "compression w' = compression w"
      by (simp_all add: h2(2) w3 h1(2) w1)
  qed
qed

lemma zip_write_Inr:
  assumes "zip_write e w chunk dat s = Inr (w', s')"
  obtains zf' s0 where
    "write_session e chunk dat (w, ZipFile_append (files s (output_zip w)), s) = Inr (w', zf', s0)"
    "s' = s0\<lparr>files := (files s0)(output_zip w :=
             ZipFile_close e (zipinfo w') (files s (output_zip w)) zf')\<rparr>"
  using assms by (auto simp: zip_write_def Let_def split: sum.splits prod.splits)

lemma ZipFile_append_simps:
  "fp (ZipFile_append file) = Some (opened file)"
  "filelist (ZipFile_append file) = map Loaded (listed file)"
  by (simp_all add: ZipFile_append_def opened_def listed_def split: option.splits)

lemma exclude_file_info_Loaded:
  "exclude_file_info w (map Loaded zs)
     = map Loaded (filter (\<lambda>z. filename z \<noteq> filename_in_zip w) zs)"
  by (induction zs) (simp_all add: exclude_file_info_def deref_def)

lemma ZipFile_close_modified:
  assumes "fp zf = Some f" and "didModify zf"
  shows "\<exists>a. ZipFile_close e own old zf = Some a
           \<and> directory a = map (\<lambda>r. case r of Own \<Rightarrow> own | Loaded z \<Rightarrow> z) (filelist zf)
           \<and> dir_offset a = start_dir zf
           \<and> drop (start_dir zf) (raw a) = end_record e (directory a) (start_dir zf)
           \<and> (\<exists>rest. raw a = take (start_dir zf) (data f) @ rest)
           \<and> (start_dir zf \<le> length (data f) \<longrightarrow>
                 raw a = take (start_dir zf) (data f) @ end_record e (directory a) (start_dir zf))"
  using assms by (auto simp: ZipFile_close_def Let_def fp_write_def)

text \<open>The whole effect of a successful \<open>zip_write\<close>.\<close>

lemma zip_write_effect:
  assumes ok: "zip_write e w chunk dat s = Inr (w', s')"
  obtains h1 z1 h2 f3 f5 a where
    "FileHeader ((zipinfo w)\<lparr>date_time := now e (ticks s)\<rparr>) (force_zip64 w) = Inr (h1, z1)"
    "f3 = fp_write (fp_seek (fp_write (fp_seek (opened (files s (output_zip w)))
                                         (header_offset (zipinfo w))) h1)
                       (header_offset (zipinfo w) + length h1 + compress_size (zipinfo w))) dat"
    "FileHeader (z1\<lparr>date_time := now e (Suc (ticks s)),
          compress_size := compress_size (zipinfo w) + length dat,
          file_size := file_size (zipinfo w) + (case chunk of None \<Rightarrow> 0 | Some c \<Rightarrow> length c),
          CRC := (case chunk of None \<Rightarrow> CRC (zipinfo w) | Some c \<Rightarrow> crc32 c (CRC (zipinfo w)))\<rparr>)
        (force_zip64 w') = Inr (h2, zipinfo w')"
    "f5 = fp_write (fp_seek f3 (header_offset (zipinfo w))) h2"
    "s' = s\<lparr>ticks := Suc (Suc (ticks s)), files := (files s)(output_zip w \<mapsto> a)\<rparr>"
    "directory a = filter (\<lambda>z. filename z \<noteq> filename_in_zip w) (listed (files s (output_zip w)))
                     @ [zipinfo w']"
    "dir_offset a = pos f3"
    "drop (pos f3) (raw a) = end_record e (directory a) (pos f3)"
    "pos f3 \<le> length (data f5) \<longrightarrow> raw a = take (pos f3) (data f5) @ end_record e (directory a) (pos f3)"
    "\<exists>rest. raw a = take (pos f3) (data f5) @ rest"
    "output_zip w' = output_zip w" "filename_in_zip w' = filename_in_zip w"
    "compression w' = compression w"
proof -
  let ?old = "files s (output_zip w)"
  from ok obtain zf' s0 where ws:
    "write_session e chunk dat (w, ZipFile_append ?old, s) = Inr (w', zf', s0)"
    and s': "s' = s0\<lparr>files := (files s0)(output_zip w := ZipFile_close e (zipinfo w') ?old zf')\<rparr>"
    by (rule zip_write_Inr)
  from ws obtain f h1 z1 h2 f3 where eff:
    "fp (ZipFile_append ?old) = Some f"
    "FileHeader ((zipinfo w)\<lparr>date_time := now e (ticks s)\<rparr>) (force_zip64 w) = Inr (h1, z1)"
    "f3 = fp_write (fp_seek (fp_write (fp_seek f (header_offset (zipinfo w))) h1)
                       (header_offset (zipinfo w) + length h1 + compress_size (zipinfo w))) dat"
    "FileHeader (z1\<lparr>date_time := now e (Suc (ticks s)),
          compress_size := compress_size (zipinfo w) + length dat,
          file_size := file_size (zipinfo w) + (case chunk of None \<Rightarrow> 0 | Some c \<Rightarrow> length c),
          CRC := (case chunk of None \<Rightarrow> CRC (zipinfo w) | Some c \<Rightarrow> crc32 c (CRC (zipinfo w)))\<rparr>)
        (force_zip64 w') = Inr (h2, zipinfo w')"
    "fp zf' = Some (fp_write (fp_seek f3 (header_offset (zipinfo w))) h2)"
    "start_dir zf' = pos f3"
    "filelist zf' = exclude_file_info w (filelist (ZipFile_append ?old)) @ [Own]"
    "didModify zf'"
    "s0 = s\<lparr>ticks := Suc (Suc (ticks s))\<rparr>"
    "output_zip w' = output_zip w" "filename_in_zip w' = filename_in_zip w"
    "compression w' = compression w"
    by (rule write_session_effect)
  have f: "f = opened ?old" using eff(1) by (simp add: ZipFile_append_simps)
  define f5 where "f5 = fp_write (fp_seek f3 (header_offset (zipinfo w))) h2"
  from ZipFile_close_modified[OF eff(5) eff(8), of e "zipinfo w'" ?old]
  obtain a where a: "ZipFile_close e (zipinfo w') ?old zf' = Some a"
    "directory a = map (\<lambda>r. case r of Own \<Rightarrow> zipinfo w' | Loaded z \<Rightarrow> z) (filelist zf')"
    "dir_offset a = start_dir zf'"
    "drop (start_dir zf') (raw a) = end_record e (directory a) (start_dir zf')"
    "start_dir zf' \<le> length (data f5) \<longrightarrow>
       raw a = take (start_dir zf') (data f5) @ end_record e (directory a) (start_dir zf')"
    "\<exists>rest. raw a = take (start_dir zf') (data f5) @ rest"
    unfolding f5_def by blast
  have dir: "directory a = filter (\<lambda>z. filename z \<noteq> filename_in_zip w) (listed ?old) @ [zipinfo w']"
    by (simp add: a(2) eff(7) ZipFile_append_simps exclude_file_info_Loaded comp_def)
  show ?thesis
  proof (rule that[of h1 z1 f3 h2 f5 a])
    show "s' = s\<lparr>ticks := Suc (Suc (ticks s)), files := (files s)(output_zip w \<mapsto> a)\<rparr>"
      by (simp add: s' eff(9) a(1))
  qed (use eff a dir f f5_def in simp_all)
qed

lemma packable_raise: "packable z \<Longrightarrow> packable (raise_versions z b)"
  using min_version_le[of z b] by (simp add: packable_def raise_versions_def)

lemma write_zipinfo_succeeds:
  assumes "packable (zipinfo w)"
  shows "\<exists>h. FileHeader (zipinfo w) (force_zip64 w) = Inr (h, raise_versions (zipinfo w) (force_zip64 w))
          \<and> write_zipinfo w (Some f)
             = Inr (w\<lparr>zipinfo := raise_versions (zipinfo w) (force_zip64 w)\<rparr>,
                    fp_write (fp_seek f (header_offset (zipinfo w))) h)"
proof -
  have "\<not> force_zip64 w \<longrightarrow> file_size (zipinfo w) < 2 ^ 32"
    by (simp add: force_zip64_iff)
  from FileHeader_succeeds[OF assms this] obtain h where
    "FileHeader (zipinfo w) (force_zip64 w) = Inr (h, raise_versions (zipinfo w) (force_zip64 w))"
    by blast
  then show ?thesis by (simp add: write_zipinfo_def)
qed

lemma zip_write_succeeds:
  assumes "packable (zipinfo w)"
    and "compress_size (zipinfo w) + length dat < 2 ^ 32"
    and "file_size (zipinfo w) + (case chunk of None \<Rightarrow> 0 | Some c \<Rightarrow> length c) < 2 ^ 64"
  shows "\<exists>w' s'. zip_write e w chunk dat s = Inr (w', s')"
proof -
  let ?old = "files s (output_zip w)"
  let ?w1 = "w\<lparr>zipinfo := (zipinfo w)\<lparr>date_time := now e (ticks s)\<rparr>\<rparr>"
  have p1: "packable (zipinfo ?w1)" using assms(1) by (simp add: packable_def)
  from write_zipinfo_succeeds[OF p1, of "opened ?old"] obtain w2 f2 where
    a: "write_zipinfo ?w1 (Some (opened ?old)) = Inr (w2, f2)"
    and w2: "w2 = ?w1\<lparr>zipinfo := raise_versions (zipinfo ?w1) (force_zip64 ?w1)\<rparr>"
    by blast
  obtain w3 s3 where
    c: "update_zipinfo_data e chunk dat (w2, s\<lparr>ticks := Suc (ticks s)\<rparr>) = (w3, s3)"
    by fastforce
  have p3: "packable (zipinfo w3)"
    using c packable_raise[OF p1, of "force_zip64 ?w1"] assms(2,3)
    by (auto simp: update_zipinfo_data_eq w2 packable_def)
  obtain f3 where b: "write_appended_data w2 (Some f2) dat = Inr f3"
    by (simp add: write_appended_data_Some)
  from write_zipinfo_succeeds[OF p3, of f3] obtain w4 f5 where
    d: "write_zipinfo w3 (Some f3) = Inr (w4, f5)" by blast
  have "fp (swap_zipinfo ?w1 (ZipFile_append ?old)) = Some (opened ?old)"
    by (simp add: swap_zipinfo_def ZipFile_append_simps)
  then have "\<exists>zf'. write_session e chunk dat (w, ZipFile_append ?old, s) = Inr (w4, zf', s3)"
    using a b c d
    by (simp add: write_session_def update_zip_info_time_eq Let_def update_start_dir_def)
  then show ?thesis
    by (auto simp: zip_write_def Let_def)
qed

subsection \<open>The example writer\<close>

lemma demo_writer_simps:
  "output_zip demo_writer = ''out.zip''" "filename_in_zip demo_writer = ''f''"
  "compression demo_writer = ZIP_STORED"
  "zipinfo demo_writer = (ZipInfo ''f'' (0, 33))\<lparr>CRC := 0\<rparr>"
  by (simp_all add: demo_writer_def ChunkedStoredZipWriter_def extract_zipinfo_def
        ZipFile_getinfo_def demo_world_def demo_env_def clock_read_def ZipInfo_def)

lemma demo_writer_packable: "packable (zipinfo demo_writer)"
  by (simp add: demo_writer_simps ZipInfo_def packable_def)

lemma demo_write_ok:
  "\<exists>w' s'. zip_write demo_env demo_writer (Some [1, 2, 3]) [1, 2, 3] demo_world = Inr (w', s')"
  by (rule zip_write_succeeds) (simp_all add: demo_writer_simps ZipInfo_def packable_def)

subsection \<open>The registry\<close>

lemma get_compressor_registered:
  assumes "compression w \<noteq> ZIP_STORED" and "get_compressor e w s = (a, s')"
  shows "zip_compressor_storage s' (compressor_path w) = Some a"
    and "zip_compressor_storage s \<subseteq>\<^sub>m zip_compressor_storage s'"
    and "zip_compressor_storage s (compressor_path w) = Some a' \<Longrightarrow> a = a' \<and> s' = s"
    and "zip_compressor_storage s (compressor_path w) = None \<Longrightarrow>
           a = next_obj s \<and> objects s' a = Compressor (new_compressor e (compression w))
           \<and> next_obj s' = Suc (next_obj s)"
    and "files s' = files s" and "ticks s' = ticks s"
  using assms
  by (auto simp: get_compressor_def new_object_def lib_get_compressor_def map_le_def
           split: option.splits if_splits)

lemma get_compressor_ok:
  assumes ok: "registry_ok s" and g: "get_compressor e w s = (a, s')"
  shows "registry_ok s'"
proof (cases "compression w = ZIP_STORED")
  case True
  with g have "zip_compressor_storage s' = zip_compressor_storage s" "next_obj s' = Suc (next_obj s)"
    by (auto simp: get_compressor_def new_object_def)
  with ok show ?thesis
    unfolding registry_ok_def by (simp) (blast intro: less_SucI)
next
  case False
  show ?thesis
  proof (cases "zip_compressor_storage s (compressor_path w)")
    case (Some a')
    from get_compressor_registered(3)[OF False g Some] ok show ?thesis by simp
  next
    case None
    let ?k = "compressor_path w" and ?n = "next_obj s"
    from None False g have s': "zip_compressor_storage s' = (zip_compressor_storage s)(?k \<mapsto> ?n)"
      "next_obj s' = Suc ?n"
      by (auto simp: get_compressor_def new_object_def lib_get_compressor_def)
    from ok have bound: "\<And>k a. zip_compressor_storage s k = Some a \<Longrightarrow> a < ?n"
      and inj: "\<And>k k' a. zip_compressor_storage s k = Some a
                   \<Longrightarrow> zip_compressor_storage s k' = Some a \<Longrightarrow> k = k'"
      unfolding registry_ok_def by blast+
    have b': "a < Suc ?n" if "((zip_compressor_storage s)(?k \<mapsto> ?n)) k = Some a" for k a
      using that bound[of k a] by (cases "k = ?k") auto
    have i': "k = k'" if "((zip_compressor_storage s)(?k \<mapsto> ?n)) k = Some a"
      "((zip_compressor_storage s)(?k \<mapsto> ?n)) k' = Some a" for k k' a
    proof (cases "k = ?k")
      case True
      then have "a = ?n" using that(1) by simp
      then show ?thesis using that(2) True bound[of k' ?n] by (cases "k' = ?k") auto
    next
      case kf: False
      then have ka: "zip_compressor_storage s k = Some a" using that(1) by simp
      then have "a < ?n" by (rule bound)
      then have "k' \<noteq> ?k" using that(2) by auto
      then show ?thesis using that(2) ka inj by simp
    qed
    show ?thesis unfolding registry_ok_def s' using b' i' by blast
  qed
qed

lemma key_injective:
  assumes "CHR ''/'' \<notin> set n1" and "CHR ''/'' \<notin> set n2"
  shows "p1 @ ''/'' @ n1 = p2 @ ''/'' @ n2 \<longleftrightarrow> p1 = p2 \<and> n1 = n2"
proof
  assume eq: "p1 @ ''/'' @ n1 = p2 @ ''/'' @ n2"
  let ?P = "\<lambda>c. c \<noteq> CHR ''/''"
  from eq have "rev (p1 @ ''/'' @ n1) = rev (p2 @ ''/'' @ n2)" by (rule arg_cong)
  then have e2: "rev n1 @ CHR ''/'' # rev p1 = rev n2 @ CHR ''/'' # rev p2" by simp
  have tw: "takeWhile ?P (rev n @ CHR ''/'' # q) = rev n" if "CHR ''/'' \<notin> set n" for n q
  proof -
    have "\<And>x. x \<in> set (rev n) \<Longrightarrow> ?P x" using that by auto
    then have "takeWhile ?P (rev n @ CHR ''/'' # q) = rev n @ takeWhile ?P (CHR ''/'' # q)"
      by (rule takeWhile_append2)
    then show ?thesis by simp
  qed
  from e2 have "takeWhile ?P (rev n1 @ CHR ''/'' # rev p1) = takeWhile ?P (rev n2 @ CHR ''/'' # rev p2)"
    by (rule arg_cong)
  then have "rev n1 = rev n2" using tw[OF assms(1)] tw[OF assms(2)] by simp
  then have "n1 = n2" by simp
  with eq show "p1 = p2 \<and> n1 = n2" by simp
qed simp

subsection \<open>What a write does to the descriptor and to the rest of the state\<close>

lemma zip_write_descriptor:
  assumes "zip_write e w chunk dat s = Inr (w', s')"
  shows "compress_size (zipinfo w') = compress_size (zipinfo w) + length dat"
    and "file_size (zipinfo w')
          = file_size (zipinfo w) + (case chunk of None \<Rightarrow> 0 | Some c \<Rightarrow> length c)"
    and "CRC (zipinfo w')
          = (case chunk of None \<Rightarrow> CRC (zipinfo w) | Some c \<Rightarrow> crc32 c (CRC (zipinfo w)))"
    and "filename (zipinfo w') = filename (zipinfo w)"
    and "header_offset (zipinfo w') = header_offset (zipinfo w)"
    and "compress_type (zipinfo w') = compress_type (zipinfo w)"
    and "extra (zipinfo w') = extra (zipinfo w)"
    and "flag_bits (zipinfo w') = flag_bits (zipinfo w)"
    and "extract_version (zipinfo w') < 64 \<longleftrightarrow> extract_version (zipinfo w) < 64"
proof -
  from assms obtain h1 z1 h2 where eff:
    "FileHeader ((zipinfo w)\<lparr>date_time := now e (ticks s)\<rparr>) (force_zip64 w) = Inr (h1, z1)"
    "FileHeader (z1\<lparr>date_time := now e (Suc (ticks s)),
          compress_size := compress_size (zipinfo w) + length dat,
          file_size := file_size (zipinfo w) + (case chunk of None \<Rightarrow> 0 | Some c \<Rightarrow> length c),
          CRC := (case chunk of None \<Rightarrow> CRC (zipinfo w) | Some c \<Rightarrow> crc32 c (CRC (zipinfo w)))\<rparr>)
        (force_zip64 w') = Inr (h2, zipinfo w')"
    by (rule zip_write_effect)
  have z1: "z1 = raise_versions ((zipinfo w)\<lparr>date_time := now e (ticks s)\<rparr>) (force_zip64 w)"
    by (rule FileHeader_Inr(1)[OF eff(1)])
  note zw = FileHeader_Inr(1)[OF eff(2)]
  show "compress_size (zipinfo w') = compress_size (zipinfo w) + length dat"
    and "file_size (zipinfo w')
          = file_size (zipinfo w) + (case chunk of None \<Rightarrow> 0 | Some c \<Rightarrow> length c)"
    and "CRC (zipinfo w')
          = (case chunk of None \<Rightarrow> CRC (zipinfo w) | Some c \<Rightarrow> crc32 c (CRC (zipinfo w)))"
    and "filename (zipinfo w') = filename (zipinfo w)"
    and "header_offset (zipinfo w') = header_offset (zipinfo w)"
    and "compress_type (zipinfo w') = compress_type (zipinfo w)"
    and "extra (zipinfo w') = extra (zipinfo w)"
    and "flag_bits (zipinfo w') = flag_bits (zipinfo w)"
    by (simp_all add: zw z1)
  have rv: "extract_version (raise_versions z b) < 64 \<longleftrightarrow> extract_version z < 64" for z b
    using min_version_le[of z b] by (auto simp: raise_versions_def)
  show "extract_version (zipinfo w') < 64 \<longleftrightarrow> extract_version (zipinfo w) < 64"
    by (simp add: zw z1 rv)
qed


lemma registry_ok_demo: "registry_ok demo_world"
  by (simp add: registry_ok_def demo_world_def)


lemma get_compressor_files:
  "get_compressor e w s = (a, s') \<Longrightarrow> files s' = files s \<and> ticks s' = ticks s"
  by (auto simp: get_compressor_def new_object_def lib_get_compressor_def
           split: option.splits if_splits)

lemma demo_flush_eq:
  "Compressed_flush demo_env demo_bzip2 demo_world_buffered
     = zip_write demo_env demo_bzip2 None [7, 8]
         (demo_world_buffered\<lparr>objects := (objects demo_world_buffered)(1 := Compressor [])\<rparr>)"
  by (simp add: Compressed_flush_def get_compressor_def demo_bzip2_def demo_world_buffered_def
        compressor_path_def adapter_flush_def demo_env_def)

lemma demo_close_eq:
  "Compressed_close demo_env demo_deflate demo_world_buffered
     = zip_write demo_env demo_deflate None [7, 8]
         (demo_world_buffered\<lparr>objects := (objects demo_world_buffered)(0 := Compressor [])\<rparr>)"
  by (simp add: Compressed_close_def get_compressor_def demo_deflate_def demo_world_buffered_def
        compressor_path_def adapter_flush_def demo_env_def)

subsection \<open>Writing a chunk and closing, for DEFLATE\<close>





subsection \<open>The entry through the protocol\<close>



















lemma stored_final_step_id: "stored_final_step e oz name s = Inr (snd (ChunkedStoredZipWriter e oz name s))"
  by (simp add: stored_final_step_def Stored_flush_def Stored_close_def split: prod.splits)

lemma stored_writer_files: "files (snd (ChunkedStoredZipWriter e oz name s)) = files s"
  by (auto simp: ChunkedStoredZipWriter_def extract_zipinfo_def clock_read_def
           split: sum.splits prod.splits)


subsection \<open>Reading the source in chunks\<close>

lemma read_file_in_chunks_Nil: "read_file_in_chunks [] n = []"
  by (subst read_file_in_chunks.simps) simp

lemma read_file_in_chunks_Cons:
  "0 < n \<Longrightarrow> rest \<noteq> [] \<Longrightarrow>
     read_file_in_chunks rest n = take n rest # read_file_in_chunks (drop n rest) n"
  by (subst read_file_in_chunks.simps) (simp del: read_file_in_chunks.simps)

lemma read_file_in_chunks_concat:
  "0 < n \<Longrightarrow> concat (read_file_in_chunks src n) = src"
proof (induction src n rule: read_file_in_chunks.induct)
  case (1 rest chunk_size)
  show ?case
  proof (cases "rest = []")
    case True
    then show ?thesis by (simp only: read_file_in_chunks_Nil concat.simps)
  next
    case False
    with "1.prems" have ne: "take chunk_size rest \<noteq> []" by (simp del: read_file_in_chunks.simps)
    from "1.IH"[OF ne "1.prems"]
    have "concat (read_file_in_chunks (drop chunk_size rest) chunk_size) = drop chunk_size rest" .
    then show ?thesis
      by (simp only: read_file_in_chunks_Cons[OF "1.prems" False] concat.simps append_take_drop_id)
  qed
qed

lemma read_file_in_chunks_nonempty:
  "0 < n \<Longrightarrow> c \<in> set (read_file_in_chunks src n) \<Longrightarrow> c \<noteq> [] \<and> length c \<le> n"
proof (induction src n rule: read_file_in_chunks.induct)
  case (1 rest chunk_size)
  show ?case
  proof (cases "rest = []")
    case True
    with "1.prems"(2) show ?thesis by (simp only: read_file_in_chunks_Nil) simp
  next
    case False
    with "1.prems"(1) have ne: "take chunk_size rest \<noteq> []"
      by (simp del: read_file_in_chunks.simps)
    from "1.prems"(2) have "c = take chunk_size rest
        \<or> c \<in> set (read_file_in_chunks (drop chunk_size rest) chunk_size)"
      by (simp only: read_file_in_chunks_Cons[OF "1.prems"(1) False] set_simps insert_iff)
    then show ?thesis
    proof
      assume "c = take chunk_size rest"
      with ne show ?thesis by (simp del: read_file_in_chunks.simps)
    next
      assume "c \<in> set (read_file_in_chunks (drop chunk_size rest) chunk_size)"
      from "1.IH"[OF ne "1.prems"(1) this] show ?thesis .
    qed
  qed
qed

text \<open>
  Above the zip64 threshold the round trip is lost. A single chunk of 2045222521 zero
  bytes, STORED, into a new archive: the first header of \<^verbatim>\<open>_write\<close> is written without
  the zip64 record and the data right behind it; the second header, after the counters
  are updated, carries the record, is 20 bytes longer and overwrites the first 20 bytes
  of the data. The reader finds the data 20 bytes later and runs out of bytes.
\<close>

lemma zip64_growth_breaks_round_trip:
  "\<exists>s'. zip_chunks demo_env [replicate 2045222521 0] ''f'' ''out.zip'' ZIP_STORED demo_world = Inr s'
        \<and> ZipFile_read demo_env (files s' ''out.zip'') ''f'' = Inl BadZipFile"
proof -
  let ?N = "2045222521 :: nat"
  let ?c = "replicate ?N (0 :: byte)"
  let ?s0 = "demo_world\<lparr>ticks := Suc 0\<rparr>"
  have cw: "ChunkedStoredZipWriter demo_env ''out.zip'' ''f'' demo_world = (demo_writer, ?s0)"
    by (simp add: demo_writer_def ChunkedStoredZipWriter_def extract_zipinfo_def
          ZipFile_getinfo_def demo_world_def clock_read_def)
  have "\<exists>w' s'. zip_write demo_env demo_writer (Some ?c) ?c ?s0 = Inr (w', s')"
    by (rule zip_write_succeeds) (simp_all add: demo_writer_simps ZipInfo_def packable_def)
  then obtain w' s1 where ok: "zip_write demo_env demo_writer (Some ?c) ?c ?s0 = Inr (w', s1)"
    by blast
  from ok obtain h1 z1 h2 f3 f5 a where eff:
    "FileHeader ((zipinfo demo_writer)\<lparr>date_time := now demo_env (ticks ?s0)\<rparr>)
        (force_zip64 demo_writer) = Inr (h1, z1)"
    "f3 = fp_write (fp_seek (fp_write (fp_seek (opened (files ?s0 (output_zip demo_writer)))
                                         (header_offset (zipinfo demo_writer))) h1)
                       (header_offset (zipinfo demo_writer) + length h1
                          + compress_size (zipinfo demo_writer))) ?c"
    "FileHeader (z1\<lparr>date_time := now demo_env (Suc (ticks ?s0)),
          compress_size := compress_size (zipinfo demo_writer) + length ?c,
          file_size := file_size (zipinfo demo_writer)
             + (case Some ?c of None \<Rightarrow> 0 | Some c \<Rightarrow> length c),
          CRC := (case Some ?c of None \<Rightarrow> CRC (zipinfo demo_writer)
                   | Some c \<Rightarrow> crc32 c (CRC (zipinfo demo_writer)))\<rparr>)
        (force_zip64 w') = Inr (h2, zipinfo w')"
    "f5 = fp_write (fp_seek f3 (header_offset (zipinfo demo_writer))) h2"
    "s1 = ?s0\<lparr>ticks := Suc (Suc (ticks ?s0)),
               files := (files ?s0)(output_zip demo_writer \<mapsto> a)\<rparr>"
    "directory a = filter (\<lambda>z. filename z \<noteq> filename_in_zip demo_writer)
                     (listed (files ?s0 (output_zip demo_writer))) @ [zipinfo w']"
    "dir_offset a = pos f3"
    "pos f3 \<le> length (data f5) \<longrightarrow>
       raw a = take (pos f3) (data f5) @ end_record demo_env (directory a) (pos f3)"
    by (rule zip_write_effect)
  note d = zip_write_descriptor[OF ok]
  have zw: "filename (zipinfo w') = ''f''" "header_offset (zipinfo w') = 0"
    "compress_size (zipinfo w') = ?N" "file_size (zipinfo w') = ?N" "extra (zipinfo w') = []"
    "compress_type (zipinfo w') = ZIP_STORED"
    using d by (simp_all add: demo_writer_simps ZipInfo_def)
  have fz: "\<not> force_zip64 demo_writer"
    by (simp add: force_zip64_iff demo_writer_simps ZipInfo_def)
  have fz': "force_zip64 w'" by (simp add: force_zip64_iff zw)
  have l1: "length h1 = 31"
    using FileHeader_length[OF eff(1)] fz by (simp add: demo_writer_simps ZipInfo_def)
  have idem: "FileHeader (zipinfo w') True = Inr (h2, zipinfo w')"
    using FileHeader_idem[OF eff(3)] fz' by simp
  from FileHeader_Inr(2)[OF idem] obtain fixed z64 where p:
    "length fixed = 30" "length z64 = 20"
    "fixed_header (zipinfo w') True (snd (encodeFilenameFlags (zipinfo w')))
        (length (filename (zipinfo w'))) (length (extra (zipinfo w')) + length z64) = Inr fixed"
    "h2 = fixed @ map of_char (filename (zipinfo w')) @ extra (zipinfo w') @ z64"
    by auto
  note ff = fixed_header_fields[OF p(3)]
  have h2: "h2 = fixed @ map of_char ''f'' @ z64" by (simp only: p(4) zw append_Nil)
  have l2: "length h2 = 51" by (simp add: h2 p(1,2))
  have op: "opened (files ?s0 (output_zip demo_writer)) = \<lparr>data = [], pos = 0\<rparr>"
    by (simp add: opened_def demo_world_def)
  have ho: "header_offset (zipinfo demo_writer) = 0" "compress_size (zipinfo demo_writer) = 0"
    by (simp_all add: demo_writer_simps ZipInfo_def)
  have g1: "data (fp_write (fp_seek \<lparr>data = [], pos = 0\<rparr> 0) h1) = [] @ h1 @ drop (length h1) []"
    by (rule fp_write_at) simp_all
  have g3: "data f3 = h1 @ ?c @ drop (length ?c) []"
    unfolding eff(2) op ho
    by (rule fp_write_at) (simp_all add: g1)
  have p3: "pos f3 = 31 + ?N" by (simp add: eff(2) ho l1)
  have g5: "data f5 = [] @ h2 @ drop (length h2) (h1 @ ?c @ drop (length ?c) [])"
    unfolding eff(4) ho
    by (rule fp_write_at) (simp_all add: g3)
  have g5': "data f5 = h2 @ replicate (?N - 20) 0"
    by (simp add: g5 l1 l2)
  have raw: "raw a = h2 @ replicate (?N - 20) 0 @ [0x50, 0x4B, 5, 6]"
    using eff(8) by (simp add: g5' p3 l2 demo_env_def)
  have dir: "directory a = [zipinfo w']"
    using eff(6) by (simp add: listed_def demo_world_def)
  have fl: "files s1 ''out.zip'' = Some a" by (simp add: eff(5) demo_writer_simps)
  have step: "stored_chunk_step demo_env ''out.zip'' ''f'' ?c demo_world = Inr s1"
    by (simp add: stored_chunk_step_def cw Stored_write_chunk_def ok Stored_close_def)
  let ?s' = "snd (ChunkedStoredZipWriter demo_env ''out.zip'' ''f'' s1)"
  have z: "zip_chunks demo_env [?c] ''f'' ''out.zip'' ZIP_STORED demo_world = Inr ?s'"
    by (simp add: zip_chunks_def step stored_final_step_id)
  have fl': "files ?s' ''out.zip'' = Some a" by (simp add: stored_writer_files fl)
  have gi: "ZipFile_getinfo (Some a) ''f'' = Inr (zipinfo w')"
    by (simp add: ZipFile_getinfo_def dir name_to_info_def zw)
  have fh: "take 30 (drop (header_offset (zipinfo w')) (raw a)) = fixed"
    by (simp add: zw raw h2 p(1))
  have nl: "le_val (take 2 (drop 26 fixed)) = 1"
    and el: "le_val (take 2 (drop 28 fixed)) = 20"
    using ff(4,5) by (simp_all add: zw p(2))
  have fname: "take 1 (drop (header_offset (zipinfo w') + 30) (raw a)) = map of_char ''f''"
    by (simp add: zw raw h2 p(1))
  have comp: "take (compress_size (zipinfo w')) (drop (header_offset (zipinfo w') + 30 + 1 + 20) (raw a))
                = replicate (?N - 20) 0 @ [0x50, 0x4B, 5, 6]"
    by (simp add: zw raw h2 p(1,2))
  have "ZipFile_read demo_env (Some a) ''f'' =
          (if length fixed \<noteq> 30 \<or> take 4 fixed \<noteq> [0x50, 0x4B, 3, 4] then Inl BadZipFile
           else if (map of_char ''f'' :: bytes) \<noteq> map of_char (filename (zipinfo w'))
                then Inl BadZipFile
           else if length (replicate (?N - 20) (0 :: byte) @ [0x50, 0x4B, 5, 6])
                     < compress_size (zipinfo w') then Inl BadZipFile
           else (case (if compress_type (zipinfo w') = ZIP_STORED
                       then Some (replicate (?N - 20) 0 @ [0x50, 0x4B, 5, 6])
                       else decompress demo_env (compress_type (zipinfo w'))
                              (replicate (?N - 20) 0 @ [0x50, 0x4B, 5, 6])) of
                   None \<Rightarrow> Inl BadZipFile
                 | Some plain \<Rightarrow>
                     (if crc32 (take (file_size (zipinfo w')) plain) 0 \<noteq> CRC (zipinfo w')
                      then Inl BadZipFile
                      else Inr (take (file_size (zipinfo w')) plain))))"
    unfolding ZipFile_read_def
    by (simp only: gi sum.case option.case Let_def fh nl el fname comp)
  then have "ZipFile_read demo_env (files ?s' ''out.zip'') ''f'' = Inl BadZipFile"
    by (simp add: fl' zw(1,3) p(1) ff(6))
  with z show ?thesis by blast
qed

section \<open>The claims\<close>

text \<open>
  Claim C8. Each of the three steps of \<^verbatim>\<open>_write\<close> that touch the stream (writing the local
  header, appending the data, setting the directory offset) raises the error "Attempt to
  write to ZIP archive that was already closed" exactly when the stream it is given is
  \<^verbatim>\<open>None\<close>; on an open stream none of them raises it.
\<close>

theorem archive_closed_error:
  "(write_zipinfo w write_stream = Inl ArchiveClosed \<longleftrightarrow> write_stream = None)
   \<and> (write_appended_data w write_stream dat = Inl ArchiveClosed \<longleftrightarrow> write_stream = None)
   \<and> (update_start_dir zip_file write_stream = Inl ArchiveClosed \<longleftrightarrow> write_stream = None)"
proof (intro conjI)
  show "write_zipinfo w write_stream = Inl ArchiveClosed \<longleftrightarrow> write_stream = None"
    by (auto simp: write_zipinfo_def split: option.splits sum.splits prod.splits
             dest: FileHeader_Inl)
  show "write_appended_data w write_stream dat = Inl ArchiveClosed \<longleftrightarrow> write_stream = None"
    by (simp add: write_appended_data_def Let_def split: option.splits)
  show "update_start_dir zip_file write_stream = Inl ArchiveClosed \<longleftrightarrow> write_stream = None"
    by (simp add: update_start_dir_def split: option.splits)
qed






text \<open>
  Claim C4 (invariant I3). After a successful \<^verbatim>\<open>_write\<close> the directory offset of the archive
  is the position of the stream right after the data just appended (the header's
  offset, plus the header written first, plus the bytes appended before, plus the new
  ones), and the end record that closing the session writes starts exactly there.
\<close>

theorem directory_follows_data:
  assumes ok: "zip_write e w chunk dat s = Inr (w', s')"
  shows "\<exists>a h1 z1 f3.
           files s' (output_zip w) = Some a
         \<and> FileHeader ((zipinfo w)\<lparr>date_time := now e (ticks s)\<rparr>) (force_zip64 w) = Inr (h1, z1)
         \<and> f3 = fp_write (fp_seek (fp_write (fp_seek (opened (files s (output_zip w)))
                                               (header_offset (zipinfo w))) h1)
                             (header_offset (zipinfo w) + length h1 + compress_size (zipinfo w))) dat
         \<and> take (length dat) (drop (fp_tell f3 - length dat) (data f3)) = dat
         \<and> dir_offset a = fp_tell f3
         \<and> dir_offset a
             = header_offset (zipinfo w) + length h1 + compress_size (zipinfo w) + length dat
         \<and> drop (dir_offset a) (raw a) = end_record e (directory a) (dir_offset a)"
proof -
  from ok obtain h1 z1 f3 a where eff:
    "FileHeader ((zipinfo w)\<lparr>date_time := now e (ticks s)\<rparr>) (force_zip64 w) = Inr (h1, z1)"
    "f3 = fp_write (fp_seek (fp_write (fp_seek (opened (files s (output_zip w)))
                                         (header_offset (zipinfo w))) h1)
                       (header_offset (zipinfo w) + length h1 + compress_size (zipinfo w))) dat"
    "s' = s\<lparr>ticks := Suc (Suc (ticks s)), files := (files s)(output_zip w \<mapsto> a)\<rparr>"
    "dir_offset a = pos f3"
    "drop (pos f3) (raw a) = end_record e (directory a) (pos f3)"
    by (rule zip_write_effect)
  let ?g = "fp_seek (fp_write (fp_seek (opened (files s (output_zip w)))
                                         (header_offset (zipinfo w))) h1)
                       (header_offset (zipinfo w) + length h1 + compress_size (zipinfo w))"
  have p: "pos f3 = header_offset (zipinfo w) + length h1 + compress_size (zipinfo w) + length dat"
    by (simp add: eff(2))
  have "take (length dat) (drop (pos ?g) (data (fp_write ?g dat))) = dat"
    by (rule fp_write_read_back)
  then have rb: "take (length dat) (drop (fp_tell f3 - length dat) (data f3)) = dat"
    using p by (simp add: eff(2)[symmetric] fp_tell_def)
  show ?thesis
    using eff rb p by (auto simp: fp_tell_def)
qed

theorem directory_follows_data_witness:
  "\<exists>w' s' a. zip_write demo_env demo_writer (Some [1, 2, 3]) [1, 2, 3] demo_world = Inr (w', s')
     \<and> files s' ''out.zip'' = Some a \<and> dir_offset a = 34
     \<and> drop 34 (raw a) = [0x50, 0x4B, 5, 6]"
proof -
  from demo_write_ok obtain w' s' where
    ok: "zip_write demo_env demo_writer (Some [1, 2, 3]) [1, 2, 3] demo_world = Inr (w', s')"
    by blast
  have fz: "\<not> force_zip64 demo_writer"
    by (simp add: force_zip64_iff demo_writer_simps ZipInfo_def)
  from directory_follows_data[OF ok] obtain a h1 z1 where r:
    "files s' (output_zip demo_writer) = Some a"
    "FileHeader ((zipinfo demo_writer)\<lparr>date_time := now demo_env (ticks demo_world)\<rparr>)
        (force_zip64 demo_writer) = Inr (h1, z1)"
    "dir_offset a = header_offset (zipinfo demo_writer) + length h1
                      + compress_size (zipinfo demo_writer) + length [1, 2, 3 :: byte]"
    "drop (dir_offset a) (raw a) = end_record demo_env (directory a) (dir_offset a)"
    by blast
  have l1: "length h1 = 31"
    using FileHeader_length[OF r(2)] fz by (simp add: demo_writer_simps ZipInfo_def)
  have "dir_offset a = 34" using r(3) l1 by (simp add: demo_writer_simps ZipInfo_def)
  with r ok show ?thesis
    by (auto simp: demo_writer_simps demo_env_def)
qed

text \<open>
  Claim C9. A header write emits the zip64 record exactly when
  \<^verbatim>\<open>file_size * 1.05 > 2^31 - 1\<close>, that is from 2045222521 bytes on: the header is then 20
  bytes longer and ends with the record; below, the extra field is written as it is.
\<close>

theorem zip64_threshold:
  assumes "write_zipinfo w (Some f) = Inr (w', f')"
  shows "\<exists>h. f' = fp_write (fp_seek f (header_offset (zipinfo w))) h
     \<and> FileHeader (zipinfo w) (real (file_size (zipinfo w)) * 1.05 > 2 ^ 31 - 1)
          = Inr (h, zipinfo w')
     \<and> length h = 30 + length (filename (zipinfo w)) + length (extra (zipinfo w))
                   + (if real (file_size (zipinfo w)) * 1.05 > 2 ^ 31 - 1 then 20 else 0)
     \<and> (if real (file_size (zipinfo w)) * 1.05 > 2 ^ 31 - 1
         then zip64_extra (zipinfo w) = Inr (drop (length h - 20) h)
         else drop (30 + length (filename (zipinfo w))) h = extra (zipinfo w))
     \<and> ((real (file_size (zipinfo w)) * 1.05 > 2 ^ 31 - 1)
          = (2045222521 \<le> file_size (zipinfo w)))"
proof -
  let ?b = "real (file_size (zipinfo w)) * 1.05 > 2 ^ 31 - 1"
  have b: "force_zip64 w = ?b" by (simp add: force_zip64_def ZIP64_LIMIT_def)
  from assms obtain h where h:
    "FileHeader (zipinfo w) (force_zip64 w) = Inr (h, zipinfo w')"
    "f' = fp_write (fp_seek f (header_offset (zipinfo w))) h"
    by (rule write_zipinfo_Inr)
  from FileHeader_Inr(2)[OF h(1)] obtain fixed z64 where p:
    "length fixed = 30" "length z64 = (if force_zip64 w then 20 else 0)"
    "if force_zip64 w then zip64_extra (zipinfo w) = Inr z64 else z64 = []"
    "h = fixed @ map of_char (filename (zipinfo w)) @ extra (zipinfo w) @ z64"
    by blast
  have tail: "if force_zip64 w then zip64_extra (zipinfo w) = Inr (drop (length h - 20) h)
         else drop (30 + length (filename (zipinfo w))) h = extra (zipinfo w)"
    using p by (auto split: if_splits)
  show ?thesis
    using h FileHeader_length[OF h(1)] tail force_zip64_iff[of w]
    unfolding b by auto
qed

theorem zip64_threshold_witness:
  "\<exists>w1 f1 w2 f2.
      write_zipinfo (demo_writer\<lparr>zipinfo := (zipinfo demo_writer)\<lparr>file_size := 2045222520\<rparr>\<rparr>)
         (Some \<lparr>data = [], pos = 0\<rparr>) = Inr (w1, f1)
    \<and> length (data f1) = 31
    \<and> write_zipinfo (demo_writer\<lparr>zipinfo := (zipinfo demo_writer)\<lparr>file_size := 2045222521\<rparr>\<rparr>)
         (Some \<lparr>data = [], pos = 0\<rparr>) = Inr (w2, f2)
    \<and> length (data f2) = 51"
proof -
  let ?wa = "demo_writer\<lparr>zipinfo := (zipinfo demo_writer)\<lparr>file_size := 2045222520\<rparr>\<rparr>"
  let ?wb = "demo_writer\<lparr>zipinfo := (zipinfo demo_writer)\<lparr>file_size := 2045222521\<rparr>\<rparr>"
  let ?f = "\<lparr>data = [], pos = 0\<rparr>"
  have pa: "packable (zipinfo ?wa)" and pb: "packable (zipinfo ?wb)"
    by (simp_all add: demo_writer_simps ZipInfo_def packable_def)
  from write_zipinfo_succeeds[OF pa, of ?f] obtain w1 f1 where
    a: "write_zipinfo ?wa (Some ?f) = Inr (w1, f1)" by blast
  from write_zipinfo_succeeds[OF pb, of ?f] obtain w2 f2 where
    b: "write_zipinfo ?wb (Some ?f) = Inr (w2, f2)" by blast
  from zip64_threshold[OF a] obtain h where ha:
    "f1 = fp_write (fp_seek ?f (header_offset (zipinfo ?wa))) h" "length h = 31"
    by (auto simp: demo_writer_simps ZipInfo_def)
  from zip64_threshold[OF b] obtain h' where hb:
    "f2 = fp_write (fp_seek ?f (header_offset (zipinfo ?wb))) h'" "length h' = 51"
    by (auto simp: demo_writer_simps ZipInfo_def)
  have "length (data f1) = 31" using ha
    by (auto simp: fp_write_def fp_seek_def demo_writer_simps ZipInfo_def)
  moreover have "length (data f2) = 51" using hb
    by (auto simp: fp_write_def fp_seek_def demo_writer_simps ZipInfo_def)
  ultimately show ?thesis using a b by blast
qed

text \<open>
  Claim C7, as stated, fails: the registry key is the string
  \<^verbatim>\<open>output_zip + "/" + filename_in_zip\<close>, so the writers for (\<^verbatim>\<open>a\<close>, \<^verbatim>\<open>b/c\<close>) and
  (\<^verbatim>\<open>a/b\<close>, \<^verbatim>\<open>c\<close>) get the same adapter object although their pairs differ.
\<close>

theorem registry_key_collision:
  "fst (get_compressor demo_env collide_w2 (snd (get_compressor demo_env collide_w1 demo_world)))
     = fst (get_compressor demo_env collide_w1 demo_world)
   \<and> (output_zip collide_w1, filename_in_zip collide_w1)
       \<noteq> (output_zip collide_w2, filename_in_zip collide_w2)
   \<and> compression collide_w1 \<noteq> ZIP_STORED \<and> compression collide_w2 \<noteq> ZIP_STORED"
  by (simp add: get_compressor_def collide_w1_def collide_w2_def demo_world_def compressor_path_def
        lib_get_compressor_def new_object_def)

text \<open>
  Claim C7, amended. For methods other than STORED, a writer that asks the registry after
  another one (in any later state that still holds the earlier registrations) gets the
  same adapter object exactly when the two joined key strings are equal; when neither
  entry name contains \<^verbatim>\<open>/\<close>, that is exactly when archive path and entry name are
  equal. For STORED, \<^verbatim>\<open>get_compressor\<close> creates a new identity adapter at an address no
  registry entry holds, whatever the registry contains, and leaves the registry as it is.
\<close>

theorem registry_keyed_by_joined_path:
  assumes ok: "registry_ok s'"
    and m1: "compression w1 \<noteq> ZIP_STORED" and m2: "compression w2 \<noteq> ZIP_STORED"
    and g1: "get_compressor e w1 s = (a1, s1)"
    and later: "zip_compressor_storage s1 \<subseteq>\<^sub>m zip_compressor_storage s'"
    and g2: "get_compressor e w2 s' = (a2, s2)"
  shows "(a1 = a2 \<longleftrightarrow> compressor_path w1 = compressor_path w2)
    \<and> (CHR ''/'' \<notin> set (filename_in_zip w1) \<and> CHR ''/'' \<notin> set (filename_in_zip w2) \<longrightarrow>
         (a1 = a2 \<longleftrightarrow> output_zip w1 = output_zip w2 \<and> filename_in_zip w1 = filename_in_zip w2))
    \<and> (compression w = ZIP_STORED \<longrightarrow>
         get_compressor e w s'
           = (next_obj s', s'\<lparr>objects := (objects s')(next_obj s' := EmptyCompress),
                               next_obj := Suc (next_obj s')\<rparr>)
         \<and> (\<forall>k. zip_compressor_storage s' k \<noteq> Some (next_obj s')))"
proof -
  from ok have bound: "\<And>k a. zip_compressor_storage s' k = Some a \<Longrightarrow> a < next_obj s'"
    and inj: "\<And>k k' a. zip_compressor_storage s' k = Some a
                 \<Longrightarrow> zip_compressor_storage s' k' = Some a \<Longrightarrow> k = k'"
    unfolding registry_ok_def by blast+
  have r1: "zip_compressor_storage s' (compressor_path w1) = Some a1"
    using get_compressor_registered(1)[OF m1 g1] later by (auto simp: map_le_def dom_def)
  have iff: "a1 = a2 \<longleftrightarrow> compressor_path w1 = compressor_path w2"
  proof (cases "zip_compressor_storage s' (compressor_path w2)")
    case None
    from get_compressor_registered(4)[OF m2 g2 None] have "a2 = next_obj s'" by simp
    moreover have "a1 < next_obj s'" using r1 by (rule bound)
    moreover have "compressor_path w1 \<noteq> compressor_path w2" using r1 None by auto
    ultimately show ?thesis by simp
  next
    case (Some a')
    from get_compressor_registered(3)[OF m2 g2 Some] have "a2 = a'" by simp
    with Some have r2: "zip_compressor_storage s' (compressor_path w2) = Some a2" by simp
    show ?thesis using r1 r2 inj by auto
  qed
  have names: "compressor_path w1 = compressor_path w2
        \<longleftrightarrow> output_zip w1 = output_zip w2 \<and> filename_in_zip w1 = filename_in_zip w2"
    if "CHR ''/'' \<notin> set (filename_in_zip w1)" "CHR ''/'' \<notin> set (filename_in_zip w2)"
    unfolding compressor_path_def by (rule key_injective[OF that])
  have fresh: "zip_compressor_storage s' k \<noteq> Some (next_obj s')" for k
    using bound[of k "next_obj s'"] by auto
  have st: "compression w = ZIP_STORED \<Longrightarrow> get_compressor e w s'
           = (next_obj s', s'\<lparr>objects := (objects s')(next_obj s' := EmptyCompress),
                               next_obj := Suc (next_obj s')\<rparr>)"
    by (simp add: get_compressor_def new_object_def)
  show ?thesis using iff names fresh st by blast
qed

theorem registry_keyed_by_joined_path_witness:
  "\<exists>a1 s1 a2 s2.
      get_compressor demo_env demo_deflate demo_world = (a1, s1)
    \<and> registry_ok s1 \<and> compression demo_deflate \<noteq> ZIP_STORED \<and> compression demo_bzip2 \<noteq> ZIP_STORED
    \<and> zip_compressor_storage s1 \<subseteq>\<^sub>m zip_compressor_storage s1
    \<and> get_compressor demo_env demo_bzip2 s1 = (a2, s2)
    \<and> CHR ''/'' \<notin> set (filename_in_zip demo_deflate) \<and> CHR ''/'' \<notin> set (filename_in_zip demo_bzip2)
    \<and> compression demo_writer = ZIP_STORED
    \<and> a1 \<noteq> a2 \<and> compressor_path demo_deflate \<noteq> compressor_path demo_bzip2
    \<and> get_compressor demo_env demo_writer s1
         = (next_obj s1, s1\<lparr>objects := (objects s1)(next_obj s1 := EmptyCompress),
                             next_obj := Suc (next_obj s1)\<rparr>)"
proof -
  obtain a1 s1 where g1: "get_compressor demo_env demo_deflate demo_world = (a1, s1)" by fastforce
  obtain a2 s2 where g2: "get_compressor demo_env demo_bzip2 s1 = (a2, s2)" by fastforce
  have ok: "registry_ok s1" by (rule get_compressor_ok[OF registry_ok_demo g1])
  have m: "compression demo_deflate \<noteq> ZIP_STORED" "compression demo_bzip2 \<noteq> ZIP_STORED"
    "compression demo_writer = ZIP_STORED"
    by (simp_all add: demo_deflate_def demo_bzip2_def demo_writer_simps)
  have le: "zip_compressor_storage s1 \<subseteq>\<^sub>m zip_compressor_storage s1" by simp
  have sl: "CHR ''/'' \<notin> set (filename_in_zip demo_deflate)"
    "CHR ''/'' \<notin> set (filename_in_zip demo_bzip2)"
    by (simp_all add: demo_deflate_def demo_bzip2_def)
  have ne: "compressor_path demo_deflate \<noteq> compressor_path demo_bzip2"
    by (simp add: compressor_path_def demo_deflate_def demo_bzip2_def)
  from registry_keyed_by_joined_path[OF ok m(1) m(2) g1 le g2, of demo_writer] ne m(3)
  have "a1 \<noteq> a2" and "get_compressor demo_env demo_writer s1
         = (next_obj s1, s1\<lparr>objects := (objects s1)(next_obj s1 := EmptyCompress),
                             next_obj := Suc (next_obj s1)\<rparr>)"
    by blast+
  with g1 g2 ok m le sl ne show ?thesis by blast
qed

text \<open>
  Claim C6. A successful \<^verbatim>\<open>flush()\<close> of the compressed writer changes nothing unless the
  method is BZIP2 or LZMA; then it takes the adapter's \<^verbatim>\<open>flush()\<close> and calls
  \<^verbatim>\<open>_write(None, result)\<close> exactly when the result is not empty. A successful \<^verbatim>\<open>close()\<close>
  changes nothing unless the method is DEFLATE; then it takes \<^verbatim>\<open>flush(Z_FULL_FLUSH)\<close> and
  calls \<^verbatim>\<open>_write(None, result)\<close> exactly when the result is not empty. In both, \<open>file_size\<close>
  and CRC stay as they are and \<open>compress_size\<close> grows by the length of the result.
\<close>

theorem flush_close_routing:
  "(Compressed_flush e w s = Inr (w', s') \<longrightarrow>
      (if compression w = ZIP_BZIP2 \<or> compression w = ZIP_LZMA
       then \<exists>a s1 out obj.
              get_compressor e w s = (a, s1)
            \<and> adapter_flush e (objects s1 a) None = Inr (out, obj)
            \<and> (if out = []
                then w' = w \<and> s' = s1\<lparr>objects := (objects s1)(a := obj)\<rparr> \<and> files s' = files s
                else zip_write e w None out (s1\<lparr>objects := (objects s1)(a := obj)\<rparr>) = Inr (w', s'))
            \<and> file_size (zipinfo w') = file_size (zipinfo w)
            \<and> CRC (zipinfo w') = CRC (zipinfo w)
            \<and> compress_size (zipinfo w') = compress_size (zipinfo w) + length out
       else w' = w \<and> s' = s))
   \<and> (Compressed_close e w s = Inr (w'', s'') \<longrightarrow>
      (if compression w = ZIP_DEFLATED
       then \<exists>a s1 out obj.
              get_compressor e w s = (a, s1)
            \<and> adapter_flush e (objects s1 a) (Some Z_FULL_FLUSH) = Inr (out, obj)
            \<and> (if out = []
                then w'' = w \<and> s'' = s1\<lparr>objects := (objects s1)(a := obj)\<rparr> \<and> files s'' = files s
                else zip_write e w None out (s1\<lparr>objects := (objects s1)(a := obj)\<rparr>) = Inr (w'', s''))
            \<and> file_size (zipinfo w'') = file_size (zipinfo w)
            \<and> CRC (zipinfo w'') = CRC (zipinfo w)
            \<and> compress_size (zipinfo w'') = compress_size (zipinfo w) + length out
       else w'' = w \<and> s'' = s))"
proof (intro conjI impI)
  assume fl: "Compressed_flush e w s = Inr (w', s')"
  show "if compression w = ZIP_BZIP2 \<or> compression w = ZIP_LZMA
       then \<exists>a s1 out obj.
              get_compressor e w s = (a, s1)
            \<and> adapter_flush e (objects s1 a) None = Inr (out, obj)
            \<and> (if out = []
                then w' = w \<and> s' = s1\<lparr>objects := (objects s1)(a := obj)\<rparr> \<and> files s' = files s
                else zip_write e w None out (s1\<lparr>objects := (objects s1)(a := obj)\<rparr>) = Inr (w', s'))
            \<and> file_size (zipinfo w') = file_size (zipinfo w)
            \<and> CRC (zipinfo w') = CRC (zipinfo w)
            \<and> compress_size (zipinfo w') = compress_size (zipinfo w) + length out
       else w' = w \<and> s' = s"
  proof (cases "compression w = ZIP_BZIP2 \<or> compression w = ZIP_LZMA")
    case False
    with fl show ?thesis by (auto simp: Compressed_flush_def)
  next
    case True
    obtain a s1 where g: "get_compressor e w s = (a, s1)" by fastforce
    from fl True g obtain out obj where af: "adapter_flush e (objects s1 a) None = Inr (out, obj)"
      by (auto simp: Compressed_flush_def split: sum.splits)
    let ?s2 = "s1\<lparr>objects := (objects s1)(a := obj)\<rparr>"
    show ?thesis
    proof (cases "out = []")
      case e: True
      with fl True g af have "w' = w" "s' = ?s2" by (auto simp: Compressed_flush_def)
      then show ?thesis using True g af e get_compressor_files[OF g] by auto
    next
      case ne: False
      with fl True g af have zw: "zip_write e w None out ?s2 = Inr (w', s')"
        by (auto simp: Compressed_flush_def)
      from zip_write_descriptor(1,2,3)[OF zw] show ?thesis using True g af ne zw by auto
    qed
  qed
next
  assume cl: "Compressed_close e w s = Inr (w'', s'')"
  show "if compression w = ZIP_DEFLATED
       then \<exists>a s1 out obj.
              get_compressor e w s = (a, s1)
            \<and> adapter_flush e (objects s1 a) (Some Z_FULL_FLUSH) = Inr (out, obj)
            \<and> (if out = []
                then w'' = w \<and> s'' = s1\<lparr>objects := (objects s1)(a := obj)\<rparr> \<and> files s'' = files s
                else zip_write e w None out (s1\<lparr>objects := (objects s1)(a := obj)\<rparr>) = Inr (w'', s''))
            \<and> file_size (zipinfo w'') = file_size (zipinfo w)
            \<and> CRC (zipinfo w'') = CRC (zipinfo w)
            \<and> compress_size (zipinfo w'') = compress_size (zipinfo w) + length out
       else w'' = w \<and> s'' = s"
  proof (cases "compression w = ZIP_DEFLATED")
    case False
    with cl show ?thesis by (auto simp: Compressed_close_def)
  next
    case True
    obtain a s1 where g: "get_compressor e w s = (a, s1)" by fastforce
    from cl True g obtain out obj where
      af: "adapter_flush e (objects s1 a) (Some Z_FULL_FLUSH) = Inr (out, obj)"
      by (auto simp: Compressed_close_def split: sum.splits)
    let ?s2 = "s1\<lparr>objects := (objects s1)(a := obj)\<rparr>"
    show ?thesis
    proof (cases "out = []")
      case e: True
      with cl True g af have "w'' = w" "s'' = ?s2" by (auto simp: Compressed_close_def)
      then show ?thesis using True g af e get_compressor_files[OF g] by auto
    next
      case ne: False
      with cl True g af have zw: "zip_write e w None out ?s2 = Inr (w'', s'')"
        by (auto simp: Compressed_close_def)
      from zip_write_descriptor(1,2,3)[OF zw] show ?thesis using True g af ne zw by auto
    qed
  qed
qed

theorem flush_close_routing_witness:
  "\<exists>w' s' w'' s''.
      Compressed_flush demo_env demo_bzip2 demo_world_buffered = Inr (w', s')
    \<and> compression demo_bzip2 = ZIP_BZIP2
    \<and> file_size (zipinfo w') = 0 \<and> compress_size (zipinfo w') = 2
    \<and> Compressed_close demo_env demo_deflate demo_world_buffered = Inr (w'', s'')
    \<and> compression demo_deflate = ZIP_DEFLATED
    \<and> file_size (zipinfo w'') = 0 \<and> compress_size (zipinfo w'') = 2"
proof -
  have "\<exists>w' s'. Compressed_flush demo_env demo_bzip2 demo_world_buffered = Inr (w', s')"
    unfolding demo_flush_eq
    by (rule zip_write_succeeds) (simp_all add: demo_bzip2_def ZipInfo_def packable_def)
  then obtain w' s' where
    fl: "Compressed_flush demo_env demo_bzip2 demo_world_buffered = Inr (w', s')" by blast
  have "\<exists>w' s'. Compressed_close demo_env demo_deflate demo_world_buffered = Inr (w', s')"
    unfolding demo_close_eq
    by (rule zip_write_succeeds) (simp_all add: demo_deflate_def ZipInfo_def packable_def)
  then obtain w'' s'' where
    cl: "Compressed_close demo_env demo_deflate demo_world_buffered = Inr (w'', s'')" by blast
  have m: "compression demo_bzip2 = ZIP_BZIP2" "compression demo_deflate = ZIP_DEFLATED"
    by (simp_all add: demo_bzip2_def demo_deflate_def)
  have g1: "get_compressor demo_env demo_bzip2 demo_world_buffered = (1, demo_world_buffered)"
    by (simp add: get_compressor_def demo_bzip2_def demo_world_buffered_def compressor_path_def)
  have g2: "get_compressor demo_env demo_deflate demo_world_buffered = (0, demo_world_buffered)"
    by (simp add: get_compressor_def demo_deflate_def demo_world_buffered_def compressor_path_def)
  have a1: "adapter_flush demo_env (objects demo_world_buffered 1) None = Inr ([7, 8], Compressor [])"
    and a2: "adapter_flush demo_env (objects demo_world_buffered 0) (Some Z_FULL_FLUSH)
               = Inr ([7, 8], Compressor [])"
    by (simp_all add: adapter_flush_def demo_world_buffered_def demo_env_def)
  note r = flush_close_routing[of demo_env demo_bzip2 demo_world_buffered w' s',
             THEN conjunct1, rule_format, OF fl]
  note r' = flush_close_routing[of demo_env demo_deflate demo_world_buffered _ _ w'' s'',
             THEN conjunct2, rule_format, OF cl]
  from r m g1 a1 have f: "file_size (zipinfo w') = 0" "compress_size (zipinfo w') = 2"
    by (auto simp: demo_bzip2_def ZipInfo_def)
  from r' m g2 a2 have c: "file_size (zipinfo w'') = 0" "compress_size (zipinfo w'') = 2"
    by (auto simp: demo_deflate_def ZipInfo_def)
  from fl cl m f c show ?thesis by blast
qed






end
